theory Spec2Isabelle
  imports Complex_Main "HOL-Library.Sublist"
begin

section \<open>Python exceptions and text files\<close>

text \<open>
  The three functions of \<^verbatim>\<open>point_cloud.py\<close> raise no exception of their own: every
  failure is an exception of Python or numpy that propagates to the caller. The model keeps
  the exception classes that can occur. \<open>IOError\<close> stands for \<open>OSError\<close> and its subclasses
  (a missing input file).
\<close>

datatype error = IOError | ValueError | IndexError | TypeError | OverflowError

text \<open>
  A file system maps a path to the text of the file, as Python decodes it. A character of
  HOL stands for the code point of the same number, so the texts of the model are those
  of code points below 256.
\<close>

type_synonym path = string
type_synonym filesystem = "path \<rightharpoonup> string"

definition open_read :: "filesystem \<Rightarrow> path \<Rightarrow> error + string" where
  "open_read fs p = (case fs p of None \<Rightarrow> Inl IOError | Some content \<Rightarrow> Inr content)"

text \<open>Text mode reads with universal newlines: \<open>\r\n\<close> and a lone \<open>\r\<close> become \<open>\n\<close>.\<close>

fun universal_newlines :: "string \<Rightarrow> string" where
  "universal_newlines [] = []"
| "universal_newlines [c] = (if c = CHR 0x0D then [CHR 0x0A] else [c])"
| "universal_newlines (c # d # cs) =
     (if c = CHR 0x0D
      then (if d = CHR 0x0A then CHR 0x0A # universal_newlines cs
            else CHR 0x0A # universal_newlines (d # cs))
      else c # universal_newlines (d # cs))"

text \<open>\<open>file.readlines()\<close>: the lines of the text, each with its terminating newline.\<close>

fun readlines :: "string \<Rightarrow> string list" where
  "readlines [] = []"
| "readlines (c # cs) =
     (if c = CHR 0x0A then [c] # readlines cs
      else (case readlines cs of [] \<Rightarrow> [[c]] | l # ls \<Rightarrow> (c # l) # ls))"

definition file_lines :: "string \<Rightarrow> string list" where
  "file_lines content = readlines (universal_newlines content)"

section \<open>Python strings\<close>

text \<open>
  The code points below 256 that \<open>str.strip()\<close> and \<open>str.split()\<close> treat as whitespace
  (\<open>str.isspace\<close>): the ASCII ones, the separators \<open>0x1C\<close> to \<open>0x1F\<close>, \<open>U+0085\<close> and
  \<open>U+00A0\<close>. numpy's tokenizer uses the same set.
\<close>

definition is_space :: "char \<Rightarrow> bool" where
  "is_space c =
     (c \<in> set [CHR 0x09, CHR 0x0A, CHR 0x0B, CHR 0x0C, CHR 0x0D,
                CHR 0x1C, CHR 0x1D, CHR 0x1E, CHR 0x1F, CHR 0x20, CHR 0x85, CHR 0xA0])"

definition strip_chars :: "(char \<Rightarrow> bool) \<Rightarrow> string \<Rightarrow> string" where
  "strip_chars p s = rev (dropWhile p (rev (dropWhile p s)))"

definition py_strip :: "string \<Rightarrow> string" where
  "py_strip s = strip_chars is_space s"

text \<open>\<open>s.split(sep)\<close> for a separator string: every occurrence cuts, empty fields stay.\<close>

fun py_split :: "string \<Rightarrow> string \<Rightarrow> string list" where
  "py_split sep [] = [[]]"
| "py_split sep (c # cs) =
     (if sep \<noteq> [] \<and> prefix sep (c # cs)
      then [] # py_split sep (drop (length sep) (c # cs))
      else (case py_split sep cs of [] \<Rightarrow> [[c]] | w # ws \<Rightarrow> (c # w) # ws))"

text \<open>\<open>s.split()\<close> without a separator: cuts at runs of whitespace, no empty fields.\<close>

function py_split_ws :: "string \<Rightarrow> string list" where
  "py_split_ws s =
     (case dropWhile is_space s of
        [] \<Rightarrow> []
      | c # cs \<Rightarrow> (c # takeWhile (\<lambda>x. \<not> is_space x) cs)
                  # py_split_ws (dropWhile (\<lambda>x. \<not> is_space x) cs))"
  by pat_completeness auto
termination
proof (relation "measure length")
  show "wf (measure length)" by simp
next
  fix s :: string and c cs
  assume h: "dropWhile is_space s = c # cs"
  have "length (dropWhile (\<lambda>x. \<not> is_space x) cs) \<le> length cs"
    by (rule length_dropWhile_le)
  moreover have "length (c # cs) \<le> length s"
    using length_dropWhile_le [of is_space s] h by simp
  ultimately show "(dropWhile (\<lambda>x. \<not> is_space x) cs, s) \<in> measure length"
    by simp
qed

declare py_split_ws.simps [simp del]

text \<open>\<open>cols[i]\<close> for a constant index \<open>i \<ge> 0\<close>.\<close>

definition list_get :: "'a list \<Rightarrow> nat \<Rightarrow> error + 'a" where
  "list_get xs i = (if i < length xs then Inr (xs ! i) else Inl IndexError)"

section \<open>Floating-point numbers\<close>

text \<open>
  A Python float (an IEEE 754 binary64 number) is a sign and an exact rational magnitude, an
  infinity, or NaN. The sign is \<open>True\<close> for a negative number (so \<open>Finite True 0\<close> is \<open>-0.0\<close>).
  A numpy \<open>float32\<close> is the same type with every value rounded to binary32.
\<close>

datatype pyfloat = Finite bool rat | Infinite bool | NaN

definition pow_int :: "rat \<Rightarrow> int \<Rightarrow> rat" where
  "pow_int b e = (if 0 \<le> e then b ^ nat e else 1 / b ^ nat (- e))"

definition round_half_even :: "rat \<Rightarrow> int" where
  "round_half_even q =
     (let f = \<lfloor>q\<rfloor>; r = q - of_int f
      in if r < 1 / 2 then f else if 1 / 2 < r then f + 1 else if even f then f else f + 1)"

function bit_length :: "int \<Rightarrow> int" where
  "bit_length n = (if n \<le> 0 then 0 else 1 + bit_length (n div 2))"
  by pat_completeness auto
termination
  by (relation "measure nat") auto

declare bit_length.simps [simp del]

text \<open>For \<open>q > 0\<close>, the exponent \<open>e\<close> with \<open>2 ^ e \<le> q < 2 ^ (e + 1)\<close>.\<close>

definition floor_log2 :: "rat \<Rightarrow> int" where
  "floor_log2 q =
     (let k = bit_length (fst (quotient_of q)) - bit_length (snd (quotient_of q))
      in if pow_int 2 k \<le> q then k else k - 1)"

text \<open>
  Rounding a magnitude \<open>q \<ge> 0\<close> to the nearest number with \<open>p\<close> significant bits (ties to
  even), with gradual underflow below \<open>2 ^ emin\<close> and overflow to infinity from
  \<open>2 ^ (emax + 1)\<close> on.
\<close>

definition round_binary :: "int \<Rightarrow> int \<Rightarrow> int \<Rightarrow> bool \<Rightarrow> rat \<Rightarrow> pyfloat" where
  "round_binary p emin emax s q =
     (if q = 0 then Finite s 0
      else let e = max (floor_log2 q) emin;
               ulp = pow_int 2 (e - p + 1);
               r = of_int (round_half_even (q / ulp)) * ulp
           in if emax < floor_log2 r then Infinite s else Finite s r)"

definition to_double :: "bool \<Rightarrow> rat \<Rightarrow> pyfloat" where
  "to_double = round_binary 53 (- 1022) 1023"

definition to_single :: "bool \<Rightarrow> rat \<Rightarrow> pyfloat" where
  "to_single = round_binary 24 (- 126) 127"

text \<open>The cast of a float64 to \<open>np.float32\<close>.\<close>

definition cast_float32 :: "pyfloat \<Rightarrow> pyfloat" where
  "cast_float32 v = (case v of Finite s q \<Rightarrow> to_single s q | Infinite s \<Rightarrow> Infinite s | NaN \<Rightarrow> NaN)"

subsection \<open>\<open>float(s)\<close>\<close>

definition is_digit :: "char \<Rightarrow> bool" where
  "is_digit c = (c \<in> set ''0123456789'')"

definition digit_val :: "char \<Rightarrow> int" where
  "digit_val c = of_char c - 48"

text \<open>A digit part of a float literal: digits, with single underscores between digits.\<close>

fun digitpart :: "string \<Rightarrow> bool" where
  "digitpart [] = False"
| "digitpart [c] = is_digit c"
| "digitpart (c # d # cs) =
     (is_digit c \<and> (if d = CHR ''_'' then digitpart cs else digitpart (d # cs)))"

definition digits_val :: "string \<Rightarrow> int" where
  "digits_val s = foldl (\<lambda>a c. 10 * a + digit_val c) 0 (filter is_digit s)"

definition to_lower :: "char \<Rightarrow> char" where
  "to_lower c =
     (if c \<in> set ''ABCDEFGHIJKLMNOPQRSTUVWXYZ'' then char_of (of_char c + (32::nat)) else c)"

definition is_exp_char :: "char \<Rightarrow> bool" where
  "is_exp_char c = (c = CHR ''e'' \<or> c = CHR ''E'')"

text \<open>The exponent of a literal: nothing, or \<open>e\<close> and an optionally signed digit part.\<close>

definition parse_exponent :: "string \<Rightarrow> int option" where
  "parse_exponent r =
     (case r of
        [] \<Rightarrow> Some 0
      | _ # t \<Rightarrow>
          (case t of
             [] \<Rightarrow> None
           | c # cs \<Rightarrow>
               if c = CHR ''-'' then (if digitpart cs then Some (- digits_val cs) else None)
               else if c = CHR ''+'' then (if digitpart cs then Some (digits_val cs) else None)
               else if digitpart t then Some (digits_val t) else None))"

text \<open>
  An unsigned decimal literal \<open>digits [. digits] [exponent]\<close> with at least one digit before
  or after the point, and its exact value.
\<close>

definition parse_decimal :: "string \<Rightarrow> rat option" where
  "parse_decimal s =
     (let mant = takeWhile (\<lambda>c. \<not> is_exp_char c) s;
          ip = takeWhile (\<lambda>c. c \<noteq> CHR ''.'') mant;
          fp = drop 1 (dropWhile (\<lambda>c. c \<noteq> CHR ''.'') mant)
      in if (ip = [] \<or> digitpart ip) \<and> (fp = [] \<or> digitpart fp) \<and> \<not> (ip = [] \<and> fp = [])
         then (case parse_exponent (dropWhile (\<lambda>c. \<not> is_exp_char c) s) of
                 None \<Rightarrow> None
               | Some ex \<Rightarrow>
                   Some (of_int (digits_val (ip @ fp))
                         * pow_int 10 (ex - int (length (filter is_digit fp)))))
         else None)"

text \<open>
  A float literal: an optional sign and \<open>inf\<close>, \<open>infinity\<close>, \<open>nan\<close> (in any case) or a
  decimal literal, rounded to binary64. \<open>None\<close> is a string that is no such literal.
\<close>

definition parse_float :: "string \<Rightarrow> pyfloat option" where
  "parse_float t =
     (let neg = (take 1 t = ''-'');
          body = (if take 1 t = ''-'' \<or> take 1 t = ''+'' then drop 1 t else t);
          low = map to_lower body
      in if low = ''inf'' \<or> low = ''infinity'' then Some (Infinite neg)
         else if low = ''nan'' then Some NaN
         else map_option (to_double neg) (parse_decimal body))"

text \<open>
  The whitespace that \<open>float\<close> strips is that of C's \<open>isspace\<close> (the separators \<open>0x1C\<close> to
  \<open>0x1F\<close> are not in it), and the non-ASCII whitespace, which \<open>float\<close> first turns into
  blanks.
\<close>

definition float_space :: "char \<Rightarrow> bool" where
  "float_space c =
     (c \<in> set [CHR 0x09, CHR 0x0A, CHR 0x0B, CHR 0x0C, CHR 0x0D, CHR 0x20, CHR 0x85, CHR 0xA0])"

text \<open>
  \<open>float(s)\<close>: the surrounding whitespace is stripped and the rest is a float literal.
  \<open>None\<close> is the \<open>ValueError\<close> of a string that is no float.
\<close>

definition py_float :: "string \<Rightarrow> pyfloat option" where
  "py_float s = parse_float (strip_chars float_space s)"

subsection \<open>The \<open>%\<close> operator on strings\<close>

function digits_of_int :: "int \<Rightarrow> string" where
  "digits_of_int n =
     (if n < 10 then [char_of (48 + n)]
      else digits_of_int (n div 10) @ [char_of (48 + n mod 10)])"
  by pat_completeness auto
termination
  by (relation "measure nat") auto

declare digits_of_int.simps [simp del]

definition show_int :: "int \<Rightarrow> string" where
  "show_int i = (if i < 0 then CHR ''-'' # digits_of_int (- i) else digits_of_int i)"

text \<open>\<open>'%f' % v\<close>: six decimals, the exact binary value rounded half to even.\<close>

definition fmt_f :: "pyfloat \<Rightarrow> string" where
  "fmt_f v =
     (case v of
        NaN \<Rightarrow> ''nan''
      | Infinite s \<Rightarrow> (if s then ''-inf'' else ''inf'')
      | Finite s q \<Rightarrow>
          (let n = round_half_even (q * 1000000);
               fr = digits_of_int (n mod 1000000)
           in (if s then ''-'' else [])
              @ digits_of_int (n div 1000000) @ ''.''
              @ replicate (6 - length fr) (CHR ''0'') @ fr))"

text \<open>\<open>'%d' % v\<close> for a float: the value truncated towards zero.\<close>

definition fmt_d :: "pyfloat \<Rightarrow> error + string" where
  "fmt_d v =
     (case v of
        NaN \<Rightarrow> Inl ValueError
      | Infinite s \<Rightarrow> Inl OverflowError
      | Finite s q \<Rightarrow> Inr (show_int (if s then - \<lfloor>q\<rfloor> else \<lfloor>q\<rfloor>)))"

datatype pyval = PInt int | PFloat pyfloat | PTuple "pyval list"

text \<open>
  One conversion. The program's format strings use \<open>%d\<close> and \<open>%f\<close> only; any other
  conversion character is outside the model and reported as \<open>ValueError\<close>.
\<close>

definition fmt_conv :: "char \<Rightarrow> pyval \<Rightarrow> error + string" where
  "fmt_conv k a =
     (if k = CHR ''d'' then
        (case a of PInt i \<Rightarrow> Inr (show_int i) | PFloat v \<Rightarrow> fmt_d v | PTuple _ \<Rightarrow> Inl TypeError)
      else if k = CHR ''f'' then
        (case a of
           PInt i \<Rightarrow> Inr (fmt_f (to_double (i < 0) (of_int \<bar>i\<bar>)))
         | PFloat v \<Rightarrow> Inr (fmt_f v)
         | PTuple _ \<Rightarrow> Inl TypeError)
      else Inl ValueError)"

text \<open>
  The format string is read from the left; each conversion takes the next argument. Too few
  arguments and arguments left over are both a \<open>TypeError\<close>.
\<close>

fun py_format_args :: "string \<Rightarrow> pyval list \<Rightarrow> error + string" where
  "py_format_args [] args = (if args = [] then Inr [] else Inl TypeError)"
| "py_format_args [c] args =
     (if c = CHR ''%'' then Inl ValueError
      else (case py_format_args [] args of Inl e \<Rightarrow> Inl e | Inr u \<Rightarrow> Inr (c # u)))"
| "py_format_args (c # k # cs) args =
     (if c = CHR ''%'' then
        (if k = CHR ''%'' then
           (case py_format_args cs args of Inl e \<Rightarrow> Inl e | Inr u \<Rightarrow> Inr (CHR ''%'' # u))
         else
           (case args of
              [] \<Rightarrow> Inl TypeError
            | a # as \<Rightarrow>
                (case fmt_conv k a of
                   Inl e \<Rightarrow> Inl e
                 | Inr t \<Rightarrow>
                     (case py_format_args cs as of Inl e \<Rightarrow> Inl e | Inr u \<Rightarrow> Inr (t @ u)))))
      else (case py_format_args (k # cs) args of Inl e \<Rightarrow> Inl e | Inr u \<Rightarrow> Inr (c # u)))"

text \<open>
  \<open>fmt % v\<close>: a tuple on the right is the argument list, any other value is the single
  argument.
\<close>

definition py_mod :: "string \<Rightarrow> pyval \<Rightarrow> error + string" where
  "py_mod fmt v = (case v of PTuple args \<Rightarrow> py_format_args fmt args | _ \<Rightarrow> py_format_args fmt [v])"

section \<open>numpy arrays\<close>

text \<open>
  Arrays of at most two dimensions: a scalar (shape \<open>()\<close>), a vector (shape \<open>(n,)\<close>) and a
  matrix given by its number of columns and its rows (shape \<open>(rows, columns)\<close>; the column
  count is kept because a matrix may have no row).
\<close>

datatype ndarray = Arr0 pyfloat | Arr1 "pyfloat list" | Arr2 nat "pyfloat list list"

definition shape :: "ndarray \<Rightarrow> pyval" where
  "shape a =
     (case a of
        Arr0 _ \<Rightarrow> PTuple []
      | Arr1 xs \<Rightarrow> PTuple [PInt (int (length xs))]
      | Arr2 n rows \<Rightarrow> PTuple [PInt (int (length rows)), PInt (int n)])"

text \<open>\<open>t[i]\<close> on a tuple.\<close>

definition tuple_get :: "pyval \<Rightarrow> nat \<Rightarrow> error + pyval" where
  "tuple_get t i = (case t of PTuple vs \<Rightarrow> list_get vs i | _ \<Rightarrow> Inl TypeError)"

text \<open>\<open>np.squeeze\<close>: axes of length one are removed.\<close>

fun squeeze :: "ndarray \<Rightarrow> ndarray" where
  "squeeze (Arr2 n [r]) = (case r of [v] \<Rightarrow> Arr0 v | _ \<Rightarrow> Arr1 r)"
| "squeeze (Arr2 n rows) = (if n = 1 then Arr1 (concat rows) else Arr2 n rows)"
| "squeeze (Arr1 [v]) = Arr0 v"
| "squeeze a = a"

text \<open>
  \<open>a[:, j]\<close> for a constant \<open>j \<ge> 0\<close>: an array of fewer than two dimensions has too many
  indices, a matrix needs more than \<open>j\<close> columns.
\<close>

definition column :: "ndarray \<Rightarrow> nat \<Rightarrow> error + ndarray" where
  "column a j =
     (case a of
        Arr2 n rows \<Rightarrow> if j < n then Inr (Arr1 (map (\<lambda>r. r ! j) rows)) else Inl IndexError
      | _ \<Rightarrow> Inl IndexError)"

text \<open>\<open>np.column_stack\<close>: scalars and vectors become columns, matrices stay.\<close>

definition as_matrix :: "ndarray \<Rightarrow> pyfloat list list \<times> nat" where
  "as_matrix a =
     (case a of
        Arr0 v \<Rightarrow> ([[v]], 1)
      | Arr1 xs \<Rightarrow> (map (\<lambda>v. [v]) xs, 1)
      | Arr2 n rows \<Rightarrow> (rows, n))"

definition column_stack :: "ndarray list \<Rightarrow> error + ndarray" where
  "column_stack arrs =
     (case map as_matrix arrs of
        [] \<Rightarrow> Inl ValueError
      | m # ms \<Rightarrow>
          if list_ex (\<lambda>m'. length (fst m') \<noteq> length (fst m)) ms then Inl ValueError
          else Inr (Arr2 (sum_list (map snd (m # ms)))
                      (map (\<lambda>i. concat (map (\<lambda>m'. fst m' ! i) (m # ms)))
                         [0..<length (fst m)])))"

text \<open>\<open>np.ones_like(a) * k\<close> for a Python integer \<open>k\<close>: float64 arithmetic.\<close>

definition float_mul :: "pyfloat \<Rightarrow> pyfloat \<Rightarrow> pyfloat" where
  "float_mul a b =
     (case (a, b) of
        (Finite s q, Finite t r) \<Rightarrow> to_double (s \<noteq> t) (q * r)
      | (Finite s q, Infinite t) \<Rightarrow> (if q = 0 then NaN else Infinite (s \<noteq> t))
      | (Infinite s, Finite t r) \<Rightarrow> (if r = 0 then NaN else Infinite (s \<noteq> t))
      | (Infinite s, Infinite t) \<Rightarrow> Infinite (s \<noteq> t)
      | _ \<Rightarrow> NaN)"

definition map_array :: "(pyfloat \<Rightarrow> pyfloat) \<Rightarrow> ndarray \<Rightarrow> ndarray" where
  "map_array f a =
     (case a of
        Arr0 v \<Rightarrow> Arr0 (f v)
      | Arr1 xs \<Rightarrow> Arr1 (map f xs)
      | Arr2 n rows \<Rightarrow> Arr2 n (map (map f) rows))"

definition ones_like :: "ndarray \<Rightarrow> ndarray" where
  "ones_like a = map_array (\<lambda>_. Finite False 1) a"

definition mul_int :: "ndarray \<Rightarrow> int \<Rightarrow> ndarray" where
  "mul_int a k = map_array (\<lambda>v. float_mul v (to_double (k < 0) (of_int \<bar>k\<bar>))) a"

subsection \<open>\<open>np.genfromtxt(fname, delimiter=..., skip_header=...)\<close>\<close>

text \<open>
  A line is cut at the comment character \<open>#\<close>, stripped of blanks and line ends, and split
  at the delimiter; a line that is empty then has no field.
\<close>

definition genfromtxt_split_line :: "string \<Rightarrow> string \<Rightarrow> string list" where
  "genfromtxt_split_line delimiter line =
     (let l = strip_chars (\<lambda>c. c \<in> set [CHR 0x20, CHR 0x0D, CHR 0x0A])
                (takeWhile (\<lambda>c. c \<noteq> CHR ''#'') line)
      in if l = [] then [] else py_split delimiter l)"

text \<open>
  With the default float dtype a field is converted by \<open>float\<close>; a field that is no float
  (or is empty) becomes \<open>nan\<close>, the converter's default.
\<close>

definition genfromtxt_float :: "string \<Rightarrow> pyfloat" where
  "genfromtxt_float field = (case py_float field of None \<Rightarrow> NaN | Some v \<Rightarrow> v)"

text \<open>
  After the skipped header lines, lines without a field are dropped; the first line that is
  left fixes the number of columns, and a line with another number of fields is a
  \<open>ValueError\<close>. The result is squeezed; a file without data gives the empty vector.
\<close>

definition genfromtxt :: "filesystem \<Rightarrow> path \<Rightarrow> string \<Rightarrow> nat \<Rightarrow> error + ndarray" where
  "genfromtxt fs fname delimiter skip_header =
     (case open_read fs fname of
        Inl e \<Rightarrow> Inl e
      | Inr content \<Rightarrow>
          (case filter (\<lambda>vs. vs \<noteq> [])
                  (map (genfromtxt_split_line delimiter) (drop skip_header (file_lines content))) of
             [] \<Rightarrow> Inr (Arr1 [])
           | first # rest \<Rightarrow>
               if list_ex (\<lambda>r. length r \<noteq> length first) rest then Inl ValueError
               else Inr (squeeze (Arr2 (length first)
                                   (map (map genfromtxt_float) (first # rest))))))"

subsection \<open>\<open>np.savetxt(fname, X, fmt=..., header=..., comments=...)\<close>\<close>

definition newline :: string where
  "newline = [CHR 0x0A]"

text \<open>
  The rows are written in order; the first row whose formatting raises stops the loop, and
  what was written before stays in the file.
\<close>

fun write_rows :: "string \<Rightarrow> pyfloat list list \<Rightarrow> string \<times> error option" where
  "write_rows format [] = ([], None)"
| "write_rows format (row # rows) =
     (case py_mod format (PTuple (map PFloat row)) of
        Inl e \<Rightarrow> ([], Some e)
      | Inr v \<Rightarrow> (case write_rows format rows of (t, e) \<Rightarrow> (v @ newline @ t, e)))"

text \<open>
  The file is opened for writing (and so emptied) before the array is looked at. A format
  string with one \<open>%\<close> is repeated for every column; otherwise the number of \<open>%\<close> must be
  the number of columns. The header, if not empty, is written first with the comment prefix
  before each of its lines, then a newline.
\<close>

definition savetxt_text :: "ndarray \<Rightarrow> string \<Rightarrow> string \<Rightarrow> string \<Rightarrow> string \<times> error option" where
  "savetxt_text X fmt header comments =
     (case X of
        Arr0 _ \<Rightarrow> ([], Some ValueError)
      | _ \<Rightarrow>
          (let rows = fst (as_matrix X);
               ncol = snd (as_matrix X);
               n_fmt_chars = length (filter (\<lambda>c. c = CHR ''%'') fmt)
           in if n_fmt_chars \<noteq> 1 \<and> n_fmt_chars \<noteq> ncol then ([], Some ValueError)
              else
                (let format = (if n_fmt_chars = 1
                               then concat (fmt # map (\<lambda>f. CHR 0x20 # f) (replicate (ncol - 1) fmt))
                               else fmt);
                     head = (if header = [] then []
                             else comments
                                  @ concat (map (\<lambda>c. if c = CHR 0x0A then CHR 0x0A # comments else [c])
                                              header)
                                  @ newline)
                 in (case write_rows format rows of (body, e) \<Rightarrow> (head @ body, e)))))"

text \<open>The file holds what was written, also when an exception ended the call.\<close>

definition savetxt ::
  "filesystem \<Rightarrow> path \<Rightarrow> ndarray \<Rightarrow> string \<Rightarrow> string \<Rightarrow> string \<Rightarrow> filesystem \<times> error option" where
  "savetxt fs fname X fmt header comments =
     (case savetxt_text X fmt header comments of (text, e) \<Rightarrow> (fs(fname \<mapsto> text), e))"

subsection \<open>\<open>np.loadtxt(lines, dtype=np.float32)\<close>\<close>

text \<open>
  The reader of numpy 1.23 and later. A line is cut at the comment character \<open>#\<close> and
  split at whitespace. Lines without a field are dropped; the first line left fixes the
  number of columns; another number of fields, or a field that is no float, is a
  \<open>ValueError\<close>. Every field is read as a float64 and cast to float32. The result is
  squeezed; no data gives the empty vector.
\<close>

definition loadtxt_split_line :: "string \<Rightarrow> string list" where
  "loadtxt_split_line line = py_split_ws (takeWhile (\<lambda>c. c \<noteq> CHR ''#'') line)"

text \<open>
  numpy's own conversion of a field: whitespace around it is skipped and the rest must be
  a float literal as C reads it, so without the underscores that \<open>float\<close> allows between
  digits.
\<close>

definition np_float :: "string \<Rightarrow> pyfloat option" where
  "np_float field =
     (let t = strip_chars is_space field
      in if CHR ''_'' \<in> set t then None else parse_float t)"

definition loadtxt_float32 :: "string \<Rightarrow> pyfloat option" where
  "loadtxt_float32 field = map_option cast_float32 (np_float field)"

fun convert_row :: "string list \<Rightarrow> pyfloat list option" where
  "convert_row [] = Some []"
| "convert_row (f # fs) =
     (case loadtxt_float32 f of
        None \<Rightarrow> None
      | Some v \<Rightarrow> (case convert_row fs of None \<Rightarrow> None | Some vs \<Rightarrow> Some (v # vs)))"

fun convert_rows :: "string list list \<Rightarrow> pyfloat list list option" where
  "convert_rows [] = Some []"
| "convert_rows (r # rs) =
     (case convert_row r of
        None \<Rightarrow> None
      | Some v \<Rightarrow> (case convert_rows rs of None \<Rightarrow> None | Some vs \<Rightarrow> Some (v # vs)))"

definition loadtxt :: "string list \<Rightarrow> error + ndarray" where
  "loadtxt lines =
     (case filter (\<lambda>vs. vs \<noteq> []) (map loadtxt_split_line lines) of
        [] \<Rightarrow> Inr (Arr1 [])
      | first # rest \<Rightarrow>
          if list_ex (\<lambda>r. length r \<noteq> length first) rest then Inl ValueError
          else (case convert_rows (first # rest) of
                  None \<Rightarrow> Inl ValueError
                | Some rows \<Rightarrow> Inr (squeeze (Arr2 (length first) rows))))"

section \<open>The program\<close>

subsection \<open>\<open>save_pointcloud_from_ORB_SLAM\<close>\<close>

definition pointcloud_header_format :: string where
  "pointcloud_header_format =
     ''ply\<newline>format ascii 1.0\<newline>element vertex %d\<newline>property float x\<newline>property float y\<newline>property float z\<newline>end_header''"

text \<open>
  The result is the file system after the call and the exception that ended it, if one
  did. Reading and slicing come before \<open>np.savetxt\<close> opens the output file.
\<close>

definition save_pointcloud_from_ORB_SLAM ::
  "filesystem \<Rightarrow> path \<Rightarrow> path \<Rightarrow> filesystem \<times> error option" where
  "save_pointcloud_from_ORB_SLAM fs input_file output_file =
     (case genfromtxt fs input_file '', '' 1 of
        Inl e \<Rightarrow> (fs, Some e)
      | Inr coords \<Rightarrow>
     (case column coords 0 of
        Inl e \<Rightarrow> (fs, Some e)
      | Inr x \<Rightarrow>
     (case column coords 1 of
        Inl e \<Rightarrow> (fs, Some e)
      | Inr y \<Rightarrow>
     (case column coords 2 of
        Inl e \<Rightarrow> (fs, Some e)
      | Inr z \<Rightarrow>
     (case tuple_get (shape x) 0 of
        Inl e \<Rightarrow> (fs, Some e)
      | Inr n \<Rightarrow>
     (case py_mod pointcloud_header_format n of
        Inl e \<Rightarrow> (fs, Some e)
      | Inr ply_header \<Rightarrow>
     (case column_stack [x, y, z] of
        Inl e \<Rightarrow> (fs, Some e)
      | Inr X \<Rightarrow> savetxt fs output_file X ''%f %f %f'' ply_header [])))))))"

subsection \<open>\<open>save_trajectory_from_ORB_SLAM\<close>\<close>

definition float_at :: "string list \<Rightarrow> nat \<Rightarrow> error + pyfloat" where
  "float_at cols i =
     (case list_get cols i of
        Inl e \<Rightarrow> Inl e
      | Inr t \<Rightarrow> (case py_float t of None \<Rightarrow> Inl ValueError | Some v \<Rightarrow> Inr v))"

text \<open>The loop over the lines, with the three lists it appends to.\<close>

fun trajectory_loop ::
  "string list \<Rightarrow> pyfloat list \<times> pyfloat list \<times> pyfloat list
     \<Rightarrow> error + pyfloat list \<times> pyfloat list \<times> pyfloat list" where
  "trajectory_loop [] acc = Inr acc"
| "trajectory_loop (line # lines) (x, y, z) =
     (let cols = py_split '' '' (py_strip line)
      in (case float_at cols 4 of
            Inl e \<Rightarrow> Inl e
          | Inr a \<Rightarrow>
         (case float_at cols 8 of
            Inl e \<Rightarrow> Inl e
          | Inr b \<Rightarrow>
         (case float_at cols 12 of
            Inl e \<Rightarrow> Inl e
          | Inr c \<Rightarrow> trajectory_loop lines (x @ [a], y @ [b], z @ [c])))))"

definition trajectory_header_format :: string where
  "trajectory_header_format =
     ''ply\<newline>format ascii 1.0\<newline>element vertex %d\<newline>property float x\<newline>property float y\<newline>property float z\<newline>property uchar red\<newline>property uchar green\<newline>property uchar blue\<newline>end_header''"

definition save_trajectory_from_ORB_SLAM ::
  "filesystem \<Rightarrow> path \<Rightarrow> path \<Rightarrow> filesystem \<times> error option" where
  "save_trajectory_from_ORB_SLAM fs input_file output_file =
     (case open_read fs input_file of
        Inl e \<Rightarrow> (fs, Some e)
      | Inr content \<Rightarrow>
     (case trajectory_loop (file_lines content) ([], [], []) of
        Inl e \<Rightarrow> (fs, Some e)
      | Inr (xs, ys, zs) \<Rightarrow>
     (let x = Arr1 xs; y = Arr1 ys; z = Arr1 zs;
          r = mul_int (ones_like x) 144;
          g = mul_int (ones_like x) 238;
          b = mul_int (ones_like x) 144
      in (case py_mod trajectory_header_format (shape x) of
            Inl e \<Rightarrow> (fs, Some e)
          | Inr ply_header \<Rightarrow>
         (case column_stack [x, y, z, r, g, b] of
            Inl e \<Rightarrow> (fs, Some e)
          | Inr X \<Rightarrow> savetxt fs output_file X ''%f %f %f %d %d %d'' ply_header [])))))"

subsection \<open>\<open>plot_3d_point_cloud\<close>\<close>

text \<open>The search for the end of the header: \<open>header_end\<close> stays 0 when no line matches.\<close>

fun find_header_end :: "nat \<Rightarrow> string list \<Rightarrow> nat" where
  "find_header_end i [] = 0"
| "find_header_end i (line # lines) =
     (if py_strip line = ''end_header'' then i + 1 else find_header_end (i + 1) lines)"

text \<open>
  The function up to the coordinate extraction: the result is the three arrays handed to
  the scatter plot. The plot itself is matplotlib's and not modelled.
\<close>

definition plot_3d_point_cloud ::
  "filesystem \<Rightarrow> path \<Rightarrow> error + ndarray \<times> ndarray \<times> ndarray" where
  "plot_3d_point_cloud fs ply_file =
     (case open_read fs ply_file of
        Inl e \<Rightarrow> Inl e
      | Inr content \<Rightarrow>
     (let lines = file_lines content;
          header_end = find_header_end 0 lines
      in (case loadtxt (drop header_end lines) of
            Inl e \<Rightarrow> Inl e
          | Inr points \<Rightarrow>
         (case column points 0 of
            Inl e \<Rightarrow> Inl e
          | Inr x \<Rightarrow>
         (case column points 1 of
            Inl e \<Rightarrow> Inl e
          | Inr y \<Rightarrow>
         (case column points 2 of
            Inl e \<Rightarrow> Inl e
          | Inr z \<Rightarrow> Inr (x, y, z)))))))"

section \<open>Notions of the specification\<close>

text \<open>\<open>' '.join(toks)\<close>: tokens separated by single blanks, the documented layout of a pose line.\<close>

definition join_spaces :: "string list \<Rightarrow> string" where
  "join_spaces toks = (case toks of [] \<Rightarrow> [] | t # ts \<Rightarrow> t @ concat (map (\<lambda>u. CHR 0x20 # u) ts))"

text \<open>The vertex lines the viewer reads: the lines after the header end that have a field, split
  in their fields.\<close>

definition vertex_rows :: "string \<Rightarrow> string list list" where
  "vertex_rows content =
     filter (\<lambda>vs. vs \<noteq> [])
       (map loadtxt_split_line
          (drop (find_header_end 0 (file_lines content)) (file_lines content)))"

text \<open>The data rows of a map-point file: the lines after the header line that have a field,
  split at the delimiter.\<close>

definition data_rows :: "string \<Rightarrow> string list list" where
  "data_rows content =
     filter (\<lambda>vs. vs \<noteq> []) (map (genfromtxt_split_line '', '') (drop 1 (file_lines content)))"

text \<open>The header of a trajectory PLY file declaring \<open>n\<close> vertices, with its final newline.\<close>

definition trajectory_header :: "nat \<Rightarrow> string" where
  "trajectory_header n =
     ''ply\<newline>format ascii 1.0\<newline>element vertex '' @ show_int (int n)
     @ ''\<newline>property float x\<newline>property float y\<newline>property float z\<newline>property uchar red\<newline>property uchar green\<newline>property uchar blue\<newline>end_header\<newline>''"

text \<open>
  The body line of a trajectory point: three floats with six decimals, then the colour
  \<open>144 238 144\<close> as integers.
\<close>

definition trajectory_body_line :: "pyfloat \<times> pyfloat \<times> pyfloat \<Rightarrow> string" where
  "trajectory_body_line p =
     (case p of (x, y, z) \<Rightarrow>
        fmt_f x @ '' '' @ fmt_f y @ '' '' @ fmt_f z @ '' 144 238 144'' @ newline)"

text \<open>A well-formed vertex declaration: \<open>element vertex\<close>, one blank, decimal digits.\<close>

definition wellformed_vertex_line :: "string \<Rightarrow> bool" where
  "wellformed_vertex_line l =
     (let d = takeWhile is_digit (drop 15 l)
      in d \<noteq> [] \<and> l = ''element vertex '' @ d @ newline)"

text \<open>The magnitude of a finite float is not negative (the sign is kept apart).\<close>

definition wf_float :: "pyfloat \<Rightarrow> bool" where
  "wf_float v = (case v of Finite s q \<Rightarrow> 0 \<le> q | _ \<Rightarrow> True)"

text \<open>
  The float64 that \<open>float\<close> reads from the text \<open>'%f' % v\<close>: \<open>v\<close> rounded to six decimals
  (half to even), then to binary64.
\<close>

definition reread6 :: "pyfloat \<Rightarrow> pyfloat" where
  "reread6 v =
     (case v of
        Finite s q \<Rightarrow> to_double s (of_int (round_half_even (q * 1000000)) / 1000000)
      | Infinite s \<Rightarrow> Infinite s
      | NaN \<Rightarrow> NaN)"

text \<open>What the viewer recovers from a written coordinate: the value read, cast to float32.\<close>

definition read_back :: "pyfloat \<Rightarrow> pyfloat" where
  "read_back v = cast_float32 (reread6 v)"

text \<open>A row of at least three well-formed floats.\<close>

definition wf_row :: "pyfloat list \<Rightarrow> bool" where
  "wf_row r = (3 \<le> length r \<and> list_all wf_float r)"

text \<open>The header of a point-cloud PLY file declaring \<open>n\<close> vertices, with its final newline.\<close>

definition pointcloud_header :: "nat \<Rightarrow> string" where
  "pointcloud_header n =
     ''ply\<newline>format ascii 1.0\<newline>element vertex '' @ show_int (int n)
     @ ''\<newline>property float x\<newline>property float y\<newline>property float z\<newline>end_header\<newline>''"

text \<open>The same header, line by line.\<close>

definition pointcloud_header_lines :: "nat \<Rightarrow> string list" where
  "pointcloud_header_lines n =
     [''ply'', ''format ascii 1.0'', ''element vertex '' @ show_int (int n),
      ''property float x'', ''property float y'', ''property float z'', ''end_header'']"

text \<open>The body line of a map point: its first three coordinates with six decimals.\<close>

definition pointcloud_body_line :: "pyfloat list \<Rightarrow> string" where
  "pointcloud_body_line r = fmt_f (r ! 0) @ '' '' @ fmt_f (r ! 1) @ '' '' @ fmt_f (r ! 2) @ newline"

section \<open>Properties\<close>

subsection \<open>Splitting and stripping\<close>

lemma py_split_single:
  "c \<notin> set w \<Longrightarrow> py_split [c] w = [w]"
  by (induction w) auto

lemma py_split_cons:
  "c \<notin> set w \<Longrightarrow> py_split [c] (w @ c # rest) = w # py_split [c] rest"
  by (induction w) auto

lemma py_split_join:
  "\<forall>t\<in>set (t0 # ts). CHR 0x20 \<notin> set t \<Longrightarrow>
   py_split [CHR 0x20] (t0 @ concat (map (\<lambda>u. CHR 0x20 # u) ts)) = t0 # ts"
proof (induction ts arbitrary: t0)
  case Nil
  then show ?case by (simp add: py_split_single)
next
  case (Cons a ts)
  have "py_split [CHR 0x20] (t0 @ CHR 0x20 # (a @ concat (map (\<lambda>u. CHR 0x20 # u) ts)))
        = t0 # py_split [CHR 0x20] (a @ concat (map (\<lambda>u. CHR 0x20 # u) ts))"
    using Cons.prems by (intro py_split_cons) simp
  also have "py_split [CHR 0x20] (a @ concat (map (\<lambda>u. CHR 0x20 # u) ts)) = a # ts"
    using Cons.prems by (intro Cons.IH) simp
  finally show ?case by simp
qed

lemma strip_chars_append:
  assumes "s \<noteq> []" "\<not> p (hd s)" "\<not> p (last s)" "\<forall>c\<in>set ws. p c"
  shows "strip_chars p (s @ ws) = s"
proof -
  have a: "dropWhile p (s @ ws) = s @ ws"
    using assms(1,2) by (cases s) auto
  have "dropWhile p (rev ws @ rev s) = dropWhile p (rev s)"
    using assms(4) by (intro dropWhile_append2) simp
  also have "\<dots> = rev s"
    using assms(1,3) by (cases "rev s") (auto simp: last_rev [symmetric] simp del: last_rev)
  finally show ?thesis
    by (simp add: strip_chars_def a)
qed

lemma last_join:
  "\<forall>t\<in>set (t0 # ts). t \<noteq> [] \<Longrightarrow>
   last (t0 @ concat (map (\<lambda>u. CHR 0x20 # u) ts)) = last (last (t0 # ts))"
proof (induction ts arbitrary: t0)
  case Nil
  then show ?case by simp
next
  case (Cons a ts)
  have "last (t0 @ CHR 0x20 # (a @ concat (map (\<lambda>u. CHR 0x20 # u) ts)))
        = last (a @ concat (map (\<lambda>u. CHR 0x20 # u) ts))"
    using Cons.prems by simp
  also have "\<dots> = last (last (a # ts))"
    using Cons.prems by (intro Cons.IH) simp
  finally show ?case by simp
qed

lemma is_space_blank: "is_space (CHR 0x20)"
  by (simp add: is_space_def)

lemma py_strip_join:
  assumes "toks \<noteq> []"
    and "\<forall>t\<in>set toks. t \<noteq> [] \<and> (\<forall>c\<in>set t. \<not> is_space c)"
    and "\<forall>c\<in>set ws. is_space c"
  shows "py_strip (join_spaces toks @ ws) = join_spaces toks"
proof -
  obtain t0 ts where toks: "toks = t0 # ts"
    using assms(1) by (cases toks) auto
  let ?j = "t0 @ concat (map (\<lambda>u. CHR 0x20 # u) ts)"
  have t0: "t0 \<noteq> []" "\<not> is_space (hd t0)"
    using assms(2) toks by auto
  have ne: "?j \<noteq> []" using t0 by simp
  have h: "\<not> is_space (hd ?j)" using t0 by simp
  have "last (t0 # ts) \<in> set toks" using toks by simp
  then have "last (t0 # ts) \<noteq> []" "\<not> is_space (last (last (t0 # ts)))"
    using assms(2) by (metis, metis last_in_set)
  moreover have "last ?j = last (last (t0 # ts))"
    using assms(2) toks by (intro last_join) simp
  ultimately have l: "\<not> is_space (last ?j)" by simp
  show ?thesis
    unfolding py_strip_def join_spaces_def toks list.case
    using ne h l assms(3) by (rule strip_chars_append)
qed

lemma py_split_join_spaces:
  assumes "toks \<noteq> []"
    and "\<forall>t\<in>set toks. t \<noteq> [] \<and> (\<forall>c\<in>set t. \<not> is_space c)"
  shows "py_split '' '' (join_spaces toks) = toks"
proof -
  obtain t0 ts where toks: "toks = t0 # ts"
    using assms(1) by (cases toks) auto
  have "\<forall>t\<in>set (t0 # ts). CHR 0x20 \<notin> set t"
    using assms(2) toks is_space_blank by auto
  then show ?thesis
    unfolding join_spaces_def toks list.case by (rule py_split_join)
qed

lemma float_at_Some:
  "i < length cols \<Longrightarrow> py_float (cols ! i) = Some v \<Longrightarrow> float_at cols i = Inr v"
  by (simp add: float_at_def list_get_def)

text \<open>
  Claim C3, as amended. A pose line made of 13 tokens separated by single blanks (the image
  path and twelve matrix entries; any whitespace may follow the last token) contributes the
  floats of its tokens 4, 8 and 12, the translation column, to the three coordinate lists.
  For the line \<open>img.png 1 0 0 10 0 1 0 20 0 0 1 30\<close> the extracted point is
  \<open>(10, 20, 30)\<close>.
\<close>

theorem translation_extraction:
  assumes "length toks = 13"
    and "\<forall>t\<in>set toks. t \<noteq> [] \<and> (\<forall>c\<in>set t. \<not> is_space c)"
    and "\<forall>c\<in>set ws. is_space c"
    and "py_float (toks ! 4) = Some tx"
    and "py_float (toks ! 8) = Some ty"
    and "py_float (toks ! 12) = Some tz"
  shows "trajectory_loop ((join_spaces toks @ ws) # lines) (x, y, z)
         = trajectory_loop lines (x @ [tx], y @ [ty], z @ [tz])"
proof -
  have ne: "toks \<noteq> []" using assms(1) by auto
  have cols: "py_split '' '' (py_strip (join_spaces toks @ ws)) = toks"
    using py_strip_join [OF ne assms(2,3)] py_split_join_spaces [OF ne assms(2)] by simp
  have "float_at toks 4 = Inr tx" "float_at toks 8 = Inr ty" "float_at toks 12 = Inr tz"
    using assms(1,4,5,6) by (simp_all add: float_at_Some)
  then show ?thesis
    by (simp add: cols)
qed

theorem translation_extraction_example:
  "trajectory_loop [''img.png 1 0 0 10 0 1 0 20 0 0 1 30''] ([], [], [])
   = Inr ([Finite False 10], [Finite False 20], [Finite False 30])"
proof -
  let ?toks = "[''img.png'', ''1'', ''0'', ''0'', ''10'', ''0'', ''1'', ''0'', ''20'', ''0'', ''0'', ''1'', ''30'']"
  have 1: "length ?toks = 13" by simp
  have 2: "\<forall>t\<in>set ?toks. t \<noteq> [] \<and> (\<forall>c\<in>set t. \<not> is_space c)"
    by (simp add: is_space_def)
  have 3: "\<forall>c\<in>set ([]::string). is_space c" by simp
  have 4: "py_float (?toks ! 4) = Some (Finite False 10)" by code_simp
  have 5: "py_float (?toks ! 8) = Some (Finite False 20)" by code_simp
  have 6: "py_float (?toks ! 12) = Some (Finite False 30)" by code_simp
  show ?thesis
    using translation_extraction [OF 1 2 3 4 5 6, of "[]" "[]" "[]" "[]"]
    by (simp add: join_spaces_def)
qed

text \<open>
  The converter cuts at every single blank. The same thirteen tokens with two blanks after
  the image path give an empty field 1, and the fields 4, 8 and 12 are the matrix entries
  3, 7 and 11: the extracted point is \<open>(0, 0, 1)\<close>.
\<close>

theorem translation_extraction_counterexample:
  "py_split_ws ''img.png  1 0 0 10 0 1 0 20 0 0 1 30''
   = [''img.png'', ''1'', ''0'', ''0'', ''10'', ''0'', ''1'', ''0'', ''20'', ''0'', ''0'', ''1'', ''30'']
   \<and> trajectory_loop [''img.png  1 0 0 10 0 1 0 20 0 0 1 30''] ([], [], [])
     = Inr ([Finite False 0], [Finite False 0], [Finite False 1])"
  by code_simp

subsection \<open>Malformed trajectory lines\<close>

lemma float_at_error:
  "float_at cols i = Inl e \<Longrightarrow> e = IndexError \<or> e = ValueError"
  by (auto simp: float_at_def list_get_def split: if_splits option.splits)

lemma float_at_fails:
  "length cols \<le> i \<or> py_float (cols ! i) = None \<Longrightarrow> \<exists>e. float_at cols i = Inl e"
  by (auto simp: float_at_def list_get_def)

lemma trajectory_loop_error:
  "trajectory_loop ls acc = Inl e \<Longrightarrow> e = IndexError \<or> e = ValueError"
proof (induction ls acc rule: trajectory_loop.induct)
  case (1 acc)
  then show ?case by simp
next
  case (2 line lines x y z)
  then show ?case
    by (auto simp: Let_def split: sum.splits dest: float_at_error)
qed

lemma trajectory_loop_bad_line:
  assumes "line \<in> set ls"
    and "\<exists>i\<in>{4, 8, 12}. \<exists>e. float_at (py_split '' '' (py_strip line)) i = Inl e"
  shows "\<exists>e. trajectory_loop ls acc = Inl e"
  using assms
proof (induction ls acc rule: trajectory_loop.induct)
  case (1 acc)
  then show ?case by simp
next
  case (2 l lines x y z)
  show ?case
  proof (cases "line = l")
    case True
    then show ?thesis
      using "2.prems"(2) by (auto simp: Let_def split: sum.splits)
  next
    case False
    then have "line \<in> set lines" using "2.prems"(1) by simp
    then show ?thesis
      using "2.IH" "2.prems"(2) by (auto simp: Let_def split: sum.splits)
  qed
qed

text \<open>
  Claim C7, as amended. The converter splits the stripped line at every single blank. When
  some input line has fewer than 13 fields after that split, or its field 4, 8 or 12 is no
  float, the call ends with an exception (\<open>IndexError\<close> or \<open>ValueError\<close>; the code has no
  \<open>ParseError\<close>) and the file system is unchanged.
\<close>

theorem trajectory_malformed_line_fails:
  assumes "fs input_file = Some content"
    and "line \<in> set (file_lines content)"
    and "length (py_split '' '' (py_strip line)) < 13
         \<or> py_float (py_split '' '' (py_strip line) ! 4) = None
         \<or> py_float (py_split '' '' (py_strip line) ! 8) = None
         \<or> py_float (py_split '' '' (py_strip line) ! 12) = None"
  shows "\<exists>e. save_trajectory_from_ORB_SLAM fs input_file output_file = (fs, Some e)
             \<and> (e = IndexError \<or> e = ValueError)"
proof -
  let ?cols = "py_split '' '' (py_strip line)"
  have "\<exists>i\<in>{4, 8, 12}. \<exists>e. float_at ?cols i = Inl e"
  proof (cases "length ?cols < 13")
    case True
    then have "\<exists>e. float_at ?cols 12 = Inl e" by (intro float_at_fails) simp
    then show ?thesis by simp
  next
    case False
    then show ?thesis using assms(3) float_at_fails by auto
  qed
  then obtain e where e: "trajectory_loop (file_lines content) ([], [], []) = Inl e"
    using trajectory_loop_bad_line [OF assms(2)] by blast
  then have "e = IndexError \<or> e = ValueError" by (rule trajectory_loop_error)
  then show ?thesis
    using e assms(1) by (simp add: save_trajectory_from_ORB_SLAM_def open_read_def)
qed

theorem trajectory_malformed_line_fails_witness:
  "\<exists>e. save_trajectory_from_ORB_SLAM [''in'' \<mapsto> ''img.png 1 0 0 10 0 1 0 20\<newline>''] ''in'' ''out''
        = ([''in'' \<mapsto> ''img.png 1 0 0 10 0 1 0 20\<newline>''], Some e)
      \<and> (e = IndexError \<or> e = ValueError)"
proof -
  let ?c = "''img.png 1 0 0 10 0 1 0 20\<newline>''"
  have 1: "[''in'' \<mapsto> ?c] ''in'' = Some ?c" by simp
  have 2: "?c \<in> set (file_lines ?c)" by code_simp
  have "length (py_split '' '' (py_strip ?c)) < 13" by code_simp
  then have 3: "length (py_split '' '' (py_strip ?c)) < 13
         \<or> py_float (py_split '' '' (py_strip ?c) ! 4) = None
         \<or> py_float (py_split '' '' (py_strip ?c) ! 8) = None
         \<or> py_float (py_split '' '' (py_strip ?c) ! 12) = None"
    by (rule disjI1)
  show ?thesis
    by (rule trajectory_malformed_line_fails
          [where fs = "[''in'' \<mapsto> ?c]" and input_file = "''in''" and content = ?c
             and line = ?c, OF 1 2 3])
qed

text \<open>
  The claim as stated counts whitespace-separated tokens. A line of 12 such tokens with two
  blanks after the image path has 13 fields for \<open>split(" ")\<close>, and the converter succeeds.
\<close>

theorem trajectory_twelve_tokens_counterexample:
  "length (py_split_ws ''img.png  1 2 3 4 5 6 7 8 9 10 11'') < 13
   \<and> snd (save_trajectory_from_ORB_SLAM [''in'' \<mapsto> ''img.png  1 2 3 4 5 6 7 8 9 10 11\<newline>''] ''in'' ''out'') = None"
  by code_simp

subsection \<open>Slicing squeezed arrays\<close>

lemma column_error: "column a j = Inl e \<Longrightarrow> e = IndexError"
  by (auto simp: column_def split: ndarray.splits if_splits)

lemma column_Inr:
  "column a j = Inr x \<Longrightarrow> \<exists>n rows. a = Arr2 n rows \<and> j < n \<and> x = Arr1 (map (\<lambda>r. r ! j) rows)"
  by (auto simp: column_def split: ndarray.splits if_splits)

lemma squeeze_Arr2_eq:
  "squeeze (Arr2 n rows) = Arr2 n' rows' \<Longrightarrow> n' = n \<and> rows' = rows \<and> length rows \<noteq> 1 \<and> n \<noteq> 1"
proof (cases rows)
  case Nil
  then show "squeeze (Arr2 n rows) = Arr2 n' rows' \<Longrightarrow> ?thesis"
    by (auto split: if_splits)
next
  case (Cons r rs)
  then show "squeeze (Arr2 n rows) = Arr2 n' rows' \<Longrightarrow> ?thesis"
    by (cases rs) (auto split: if_splits list.splits)
qed

lemma column_squeeze_single: "column (squeeze (Arr2 n [r])) j = Inl IndexError"
  by (auto simp: column_def split: list.splits)

lemma column_squeeze_narrow:
  "n \<le> j \<Longrightarrow> column (squeeze (Arr2 n rows)) j = Inl IndexError"
  by (cases "squeeze (Arr2 n rows)") (auto simp: column_def dest: squeeze_Arr2_eq)

subsection \<open>The viewer\<close>

lemma convert_rows_length: "convert_rows rs = Some vs \<Longrightarrow> length vs = length rs"
  by (induction rs arbitrary: vs) (auto split: option.splits)

lemma convert_row_None:
  "t \<in> set r \<Longrightarrow> loadtxt_float32 t = None \<Longrightarrow> convert_row r = None"
  by (induction r) (auto split: option.splits)

lemma convert_rows_None:
  "r \<in> set rs \<Longrightarrow> convert_row r = None \<Longrightarrow> convert_rows rs = None"
  by (induction rs) (auto split: option.splits)

lemma loadtxt_Arr2:
  assumes "loadtxt ls = Inr (Arr2 n rows)"
  shows "2 \<le> length (filter (\<lambda>vs. vs \<noteq> []) (map loadtxt_split_line ls))"
proof -
  let ?rs = "filter (\<lambda>vs. vs \<noteq> []) (map loadtxt_split_line ls)"
  obtain first rest where rs: "?rs = first # rest"
    using assms by (cases ?rs) (auto simp: loadtxt_def)
  then obtain vs where vs: "convert_rows (first # rest) = Some vs"
    and sq: "squeeze (Arr2 (length first) vs) = Arr2 n rows"
    using assms by (auto simp: loadtxt_def split: if_splits option.splits)
  have "length vs = length ?rs" using convert_rows_length [OF vs] rs by simp
  moreover have "length vs \<noteq> 1" using squeeze_Arr2_eq [OF sq] by simp
  ultimately show ?thesis using rs by (cases rest) auto
qed

lemma loadtxt_single:
  assumes "filter (\<lambda>vs. vs \<noteq> []) (map loadtxt_split_line ls) = [r]"
  shows "loadtxt ls = Inl ValueError \<and> convert_row r = None
         \<or> (\<exists>a. loadtxt ls = Inr a \<and> column a 0 = Inl IndexError \<and> convert_row r \<noteq> None)"
  using assms
  by (auto simp: loadtxt_def column_squeeze_single simp del: squeeze.simps split: option.splits)

lemma loadtxt_non_numeric:
  assumes "l \<in> set ls" "t \<in> set (loadtxt_split_line l)" "loadtxt_float32 t = None"
  shows "loadtxt ls = Inl ValueError"
proof -
  let ?rs = "filter (\<lambda>vs. vs \<noteq> []) (map loadtxt_split_line ls)"
  have mem: "loadtxt_split_line l \<in> set ?rs" using assms(1,2) by auto
  then obtain first rest where rs: "?rs = first # rest"
    by (cases ?rs) auto
  have "convert_row (loadtxt_split_line l) = None"
    using assms(2,3) by (intro convert_row_None [of t])
  then have "convert_rows (first # rest) = None"
    using mem rs convert_rows_None by metis
  then show ?thesis
    by (simp add: loadtxt_def rs)
qed

lemma find_header_end_none:
  "\<forall>l\<in>set ls. py_strip l \<noteq> ''end_header'' \<Longrightarrow> find_header_end i ls = 0"
  by (induction ls arbitrary: i) auto

text \<open>
  Claim C10. When exactly one line after the header end has fields, the viewer fails: with
  \<open>IndexError\<close> at \<open>points[:, 0]\<close> when the fields are numbers (the parsed body is then
  one-dimensional), and already in \<open>np.loadtxt\<close> otherwise. Whenever the viewer reaches
  the plot, the body had at least two vertex lines.
\<close>

theorem viewer_single_vertex_line:
  assumes "fs ply_file = Some content"
  shows "(\<forall>r. vertex_rows content = [r] \<longrightarrow>
            plot_3d_point_cloud fs ply_file
            = Inl (if convert_row r = None then ValueError else IndexError))
         \<and> (\<forall>res. plot_3d_point_cloud fs ply_file = Inr res \<longrightarrow> 2 \<le> length (vertex_rows content))"
proof (intro conjI allI impI)
  fix r
  assume "vertex_rows content = [r]"
  then have "filter (\<lambda>vs. vs \<noteq> [])
               (map loadtxt_split_line
                  (drop (find_header_end 0 (file_lines content)) (file_lines content))) = [r]"
    by (simp add: vertex_rows_def)
  from loadtxt_single [OF this]
  show "plot_3d_point_cloud fs ply_file = Inl (if convert_row r = None then ValueError else IndexError)"
    using assms
    by (auto simp: plot_3d_point_cloud_def open_read_def Let_def)
next
  fix res
  assume "plot_3d_point_cloud fs ply_file = Inr res"
  then obtain points x where
    "loadtxt (drop (find_header_end 0 (file_lines content)) (file_lines content)) = Inr points"
    "column points 0 = Inr x"
    using assms
    by (auto simp: plot_3d_point_cloud_def open_read_def Let_def split: sum.splits)
  then show "2 \<le> length (vertex_rows content)"
    unfolding vertex_rows_def using loadtxt_Arr2 column_Inr by blast
qed

theorem viewer_single_vertex_line_witness:
  "plot_3d_point_cloud [''p'' \<mapsto> ''ply\<newline>end_header\<newline>1.5 2 3\<newline>''] ''p'' = Inl IndexError
   \<and> 2 \<le> length (vertex_rows ''ply\<newline>end_header\<newline>1 2 3\<newline>4 5 6\<newline>'')"
proof -
  let ?c1 = "''ply\<newline>end_header\<newline>1.5 2 3\<newline>''"
  let ?c2 = "''ply\<newline>end_header\<newline>1 2 3\<newline>4 5 6\<newline>''"
  have 1: "[''p'' \<mapsto> ?c1] ''p'' = Some ?c1" by simp
  have 2: "[''p'' \<mapsto> ?c2] ''p'' = Some ?c2" by simp
  have r1: "vertex_rows ?c1 = [[''1.5'', ''2'', ''3'']]" by code_simp
  have r2: "convert_row [''1.5'', ''2'', ''3''] \<noteq> None" by code_simp
  have p2: "plot_3d_point_cloud [''p'' \<mapsto> ?c2] ''p''
            = Inr (Arr1 [Finite False 1, Finite False 4], Arr1 [Finite False 2, Finite False 5],
                   Arr1 [Finite False 3, Finite False 6])"
    by code_simp
  have a: "plot_3d_point_cloud [''p'' \<mapsto> ?c1] ''p'' = Inl IndexError"
    using viewer_single_vertex_line [where fs = "[''p'' \<mapsto> ?c1]" and ply_file = "''p''"
        and content = ?c1, OF 1] r1 r2 by simp
  have b: "2 \<le> length (vertex_rows ?c2)"
    using viewer_single_vertex_line [where fs = "[''p'' \<mapsto> ?c2]" and ply_file = "''p''"
        and content = ?c2, OF 2] p2 by blast
  show ?thesis using a b by (rule conjI)
qed

text \<open>
  Claim C6, as amended. On a file without a line whose stripped content is \<open>end_header\<close>
  the viewer raises nothing for the missing marker: \<open>header_end\<close> stays 0 and all lines are
  parsed as vertex lines. The call fails with \<open>ValueError\<close> when some line has a field that
  \<open>np.loadtxt\<close> does not read as a float (as the header lines of a PLY file have).
\<close>

theorem viewer_without_end_header:
  assumes "fs ply_file = Some content"
    and "\<forall>l\<in>set (file_lines content). py_strip l \<noteq> ''end_header''"
  shows "plot_3d_point_cloud fs ply_file
         = (case loadtxt (file_lines content) of
              Inl e \<Rightarrow> Inl e
            | Inr points \<Rightarrow>
                (case column points 0 of Inl e \<Rightarrow> Inl e | Inr x \<Rightarrow>
                (case column points 1 of Inl e \<Rightarrow> Inl e | Inr y \<Rightarrow>
                (case column points 2 of Inl e \<Rightarrow> Inl e | Inr z \<Rightarrow> Inr (x, y, z)))))
         \<and> (\<forall>l t. l \<in> set (file_lines content) \<and> t \<in> set (loadtxt_split_line l)
                   \<and> loadtxt_float32 t = None
               \<longrightarrow> plot_3d_point_cloud fs ply_file = Inl ValueError)"
proof -
  have he: "find_header_end 0 (file_lines content) = 0"
    using assms(2) by (rule find_header_end_none)
  have eq: "plot_3d_point_cloud fs ply_file
         = (case loadtxt (file_lines content) of
              Inl e \<Rightarrow> Inl e
            | Inr points \<Rightarrow>
                (case column points 0 of Inl e \<Rightarrow> Inl e | Inr x \<Rightarrow>
                (case column points 1 of Inl e \<Rightarrow> Inl e | Inr y \<Rightarrow>
                (case column points 2 of Inl e \<Rightarrow> Inl e | Inr z \<Rightarrow> Inr (x, y, z)))))"
    using assms(1) by (simp add: plot_3d_point_cloud_def open_read_def he)
  show ?thesis
    using eq loadtxt_non_numeric [of _ "file_lines content"] by auto
qed

theorem viewer_without_end_header_witness:
  "plot_3d_point_cloud [''p'' \<mapsto> ''ply\<newline>format ascii 1.0\<newline>1 2 3\<newline>4 5 6\<newline>''] ''p''
   = Inl ValueError"
proof -
  let ?c = "''ply\<newline>format ascii 1.0\<newline>1 2 3\<newline>4 5 6\<newline>''"
  have 1: "[''p'' \<mapsto> ?c] ''p'' = Some ?c" by simp
  have "list_all (\<lambda>l. py_strip l \<noteq> ''end_header'') (file_lines ?c)" by code_simp
  then have 2: "\<forall>l\<in>set (file_lines ?c). py_strip l \<noteq> ''end_header''"
    by (simp add: list_all_iff)
  have 3: "''ply\<newline>'' \<in> set (file_lines ?c)" by code_simp
  have 4: "''ply'' \<in> set (loadtxt_split_line ''ply\<newline>'')" by code_simp
  have 5: "loadtxt_float32 ''ply'' = None" by code_simp
  show ?thesis
    using viewer_without_end_header [where fs = "[''p'' \<mapsto> ?c]" and ply_file = "''p''"
        and content = ?c, OF 1 2] 3 4 5 by blast
qed

text \<open>A file of numbers only has no \<open>end_header\<close> line, and the viewer reads it without error.\<close>

theorem viewer_without_end_header_counterexample:
  "\<not> list_ex (\<lambda>l. py_strip l = ''end_header'') (file_lines ''1 2 3\<newline>4 5 6\<newline>'')
   \<and> plot_3d_point_cloud [''p'' \<mapsto> ''1 2 3\<newline>4 5 6\<newline>''] ''p''
     = Inr (Arr1 [Finite False 1, Finite False 4], Arr1 [Finite False 2, Finite False 5],
            Arr1 [Finite False 3, Finite False 6])"
  by code_simp

subsection \<open>Malformed map-point rows\<close>

lemma genfromtxt_short_row:
  assumes "fs input_file = Some content"
    and "r \<in> set (data_rows content)"
    and "length r < 3"
  shows "genfromtxt fs input_file '', '' 1 = Inl ValueError
         \<or> (\<exists>a. genfromtxt fs input_file '', '' 1 = Inr a \<and> column a 2 = Inl IndexError)"
proof -
  obtain first rest where rs: "data_rows content = first # rest"
    using assms(2) by (cases "data_rows content") auto
  show ?thesis
  proof (cases "list_ex (\<lambda>r. length r \<noteq> length first) rest")
    case True
    then show ?thesis
      using assms(1) rs by (simp add: genfromtxt_def open_read_def data_rows_def)
  next
    case False
    then have "length r = length first"
      using assms(2) rs by (auto simp: list_ex_iff)
    then have "length first \<le> 2" using assms(3) by simp
    then have "column (squeeze (Arr2 (length first) (map (map genfromtxt_float) (first # rest)))) 2
               = Inl IndexError"
      by (rule column_squeeze_narrow)
    then show ?thesis
      using assms(1) rs False
      by (simp add: genfromtxt_def open_read_def data_rows_def del: squeeze.simps)
  qed
qed

text \<open>
  Claim C5, as amended. When a data row has fewer than 3 fields, the call ends with an
  exception (\<open>ValueError\<close> from \<open>np.genfromtxt\<close> for rows of different lengths,
  \<open>IndexError\<close> from the slicing otherwise) and the file system is unchanged.
\<close>

theorem pointcloud_short_row_fails:
  assumes "fs input_file = Some content"
    and "r \<in> set (data_rows content)"
    and "length r < 3"
  shows "\<exists>e. save_pointcloud_from_ORB_SLAM fs input_file output_file = (fs, Some e)
             \<and> (e = ValueError \<or> e = IndexError)"
  using genfromtxt_short_row [where fs = fs and input_file = input_file, OF assms]
  by (auto simp: save_pointcloud_from_ORB_SLAM_def split: sum.splits dest: column_error)

theorem pointcloud_short_row_fails_witness:
  "\<exists>e. save_pointcloud_from_ORB_SLAM
          [''in'' \<mapsto> ''pos_x, pos_y\<newline>1.0, 2.0\<newline>3.0, 4.0\<newline>''] ''in'' ''out''
        = ([''in'' \<mapsto> ''pos_x, pos_y\<newline>1.0, 2.0\<newline>3.0, 4.0\<newline>''], Some e)
      \<and> (e = ValueError \<or> e = IndexError)"
proof -
  let ?c = "''pos_x, pos_y\<newline>1.0, 2.0\<newline>3.0, 4.0\<newline>''"
  have 1: "[''in'' \<mapsto> ?c] ''in'' = Some ?c" by simp
  have 2: "[''1.0'', ''2.0''] \<in> set (data_rows ?c)" by code_simp
  have 3: "length [''1.0'', ''2.0''] < 3" by simp
  show ?thesis
    by (rule pointcloud_short_row_fails
          [where fs = "[''in'' \<mapsto> ?c]" and input_file = "''in''" and content = ?c, OF 1 2 3])
qed

text \<open>
  A field that is no number does not make the converter fail: \<open>np.genfromtxt\<close> reads it
  as \<open>nan\<close>, and the output file is written.
\<close>

theorem pointcloud_non_numeric_counterexample:
  "py_float ''abc'' = None
   \<and> [''1.0'', ''abc'', ''3.0''] \<in> set (data_rows ''pos_x, pos_y, pos_z\<newline>1.0, abc, 3.0\<newline>4.0, 5.0, 6.0\<newline>'')
   \<and> snd (save_pointcloud_from_ORB_SLAM
            [''in'' \<mapsto> ''pos_x, pos_y, pos_z\<newline>1.0, abc, 3.0\<newline>4.0, 5.0, 6.0\<newline>''] ''in'' ''out'') = None
   \<and> fst (save_pointcloud_from_ORB_SLAM
            [''in'' \<mapsto> ''pos_x, pos_y, pos_z\<newline>1.0, abc, 3.0\<newline>4.0, 5.0, 6.0\<newline>''] ''in'' ''out'') ''out''
     = Some ''ply\<newline>format ascii 1.0\<newline>element vertex 2\<newline>property float x\<newline>property float y\<newline>property float z\<newline>end_header\<newline>1.000000 nan 3.000000\<newline>4.000000 5.000000 6.000000\<newline>''"
  by code_simp

subsection \<open>The output of the trajectory converter\<close>

lemma trajectory_header_shape:
  "py_mod trajectory_header_format (shape (Arr1 xs))
   = Inr (butlast (trajectory_header (length xs)))"
  by (simp add: py_mod_def shape_def trajectory_header_format_def trajectory_header_def
      fmt_conv_def butlast_append)

lemma trajectory_header_count:
  "py_mod trajectory_header_format (PInt (int n)) = Inr (butlast (trajectory_header n))"
  by (simp add: py_mod_def trajectory_header_format_def trajectory_header_def
      fmt_conv_def butlast_append)

lemma const_144: "float_mul (Finite False 1) (to_double False 144) = Finite False 144"
  by code_simp

lemma const_238: "float_mul (Finite False 1) (to_double False 238) = Finite False 238"
  by code_simp

lemma fmt_d_144: "fmt_d (Finite False 144) = Inr ''144''"
  by code_simp

lemma fmt_d_238: "fmt_d (Finite False 238) = Inr ''238''"
  by code_simp

lemma ones_like_144: "mul_int (ones_like (Arr1 xs)) 144 = Arr1 (map (\<lambda>_. Finite False 144) xs)"
  by (simp add: mul_int_def ones_like_def map_array_def const_144)

lemma ones_like_238: "mul_int (ones_like (Arr1 xs)) 238 = Arr1 (map (\<lambda>_. Finite False 238) xs)"
  by (simp add: mul_int_def ones_like_def map_array_def const_238)

lemma trajectory_row_format:
  "py_mod ''%f %f %f %d %d %d''
     (PTuple (map PFloat [x, y, z, Finite False 144, Finite False 238, Finite False 144]))
   = Inr (fmt_f x @ '' '' @ fmt_f y @ '' '' @ fmt_f z @ '' 144 238 144'')"
  by (simp add: py_mod_def fmt_conv_def fmt_d_144 fmt_d_238)

lemma trajectory_loop_lengths:
  "trajectory_loop ls (x, y, z) = Inr (xs, ys, zs) \<Longrightarrow>
   length xs = length x + length ls \<and> length ys = length y + length ls
   \<and> length zs = length z + length ls"
proof (induction ls "(x, y, z)" arbitrary: x y z rule: trajectory_loop.induct)
  case 1
  then show ?case by simp
next
  case (2 line lines x y z)
  from "2.prems" obtain a b c where
    "trajectory_loop lines (x @ [a], y @ [b], z @ [c]) = Inr (xs, ys, zs)"
    and "float_at (py_split '' '' (py_strip line)) 4 = Inr a"
    and "float_at (py_split '' '' (py_strip line)) 8 = Inr b"
    and "float_at (py_split '' '' (py_strip line)) 12 = Inr c"
    by (auto simp: Let_def split: sum.splits)
  with "2.hyps" [of "py_split '' '' (py_strip line)" a b c] show ?case
    by simp
qed

lemma column_stack_six:
  assumes "length ys = length xs" "length zs = length xs"
  shows "column_stack [Arr1 xs, Arr1 ys, Arr1 zs, Arr1 (map (\<lambda>_. r) xs),
                       Arr1 (map (\<lambda>_. g) xs), Arr1 (map (\<lambda>_. b) xs)]
         = Inr (Arr2 6 (map (\<lambda>(x, y, z). [x, y, z, r, g, b]) (zip xs (zip ys zs))))"
  using assms
  apply (simp add: column_stack_def as_matrix_def)
  apply (intro nth_equalityI)
   apply simp_all
  done

lemma write_rows_lines:
  assumes "\<And>p. p \<in> set ps \<Longrightarrow>
             \<exists>v. py_mod format (PTuple (map PFloat (row p))) = Inr v \<and> line p = v @ newline"
  shows "write_rows format (map row ps) = (concat (map line ps), None)"
  using assms
proof (induction ps)
  case Nil
  then show ?case by simp
next
  case (Cons p ps)
  obtain v where "py_mod format (PTuple (map PFloat (row p))) = Inr v" "line p = v @ newline"
    using Cons.prems [of p] by auto
  moreover have "write_rows format (map row ps) = (concat (map line ps), None)"
    using Cons.prems by (intro Cons.IH) simp
  ultimately show ?case by simp
qed

lemma header_no_comment:
  "concat (map (\<lambda>c. if c = CHR 0x0A then [CHR 0x0A] else [c]) h) = h"
  by (induction h) simp_all

lemma trajectory_text:
  assumes "length ys = length xs" "length zs = length xs"
  shows "savetxt_text
           (Arr2 6 (map (\<lambda>(x, y, z). [x, y, z, Finite False 144, Finite False 238, Finite False 144])
                      (zip xs (zip ys zs))))
           ''%f %f %f %d %d %d'' (butlast (trajectory_header (length xs))) []
         = (trajectory_header (length xs) @ concat (map trajectory_body_line (zip xs (zip ys zs))),
            None)"
proof -
  have w: "write_rows ''%f %f %f %d %d %d''
             (map (\<lambda>(x, y, z). [x, y, z, Finite False 144, Finite False 238, Finite False 144])
                (zip xs (zip ys zs)))
           = (concat (map trajectory_body_line (zip xs (zip ys zs))), None)"
    by (rule write_rows_lines)
      (auto simp: trajectory_body_line_def py_mod_def fmt_conv_def fmt_d_144 fmt_d_238)
  have h: "butlast (trajectory_header (length xs)) @ newline = trajectory_header (length xs)"
    by (simp add: trajectory_header_def newline_def butlast_append)
  have ne: "butlast (trajectory_header (length xs)) \<noteq> []"
    by (simp add: trajectory_header_def butlast_append)
  show ?thesis
    using ne by (simp add: savetxt_text_def as_matrix_def w header_no_comment h)
qed

lemma save_trajectory_result:
  assumes "fs input_file = Some content"
    and "trajectory_loop (file_lines content) ([], [], []) = Inr (xs, ys, zs)"
  shows "save_trajectory_from_ORB_SLAM fs input_file output_file
         = (fs(output_file \<mapsto> trajectory_header (length xs)
                                @ concat (map trajectory_body_line (zip xs (zip ys zs)))),
            None)"
proof -
  have len: "length ys = length xs" "length zs = length xs"
    using trajectory_loop_lengths [OF assms(2)] by simp_all
  show ?thesis
    using assms
    by (simp add: save_trajectory_from_ORB_SLAM_def open_read_def ones_like_144 ones_like_238
        trajectory_header_shape column_stack_six [OF len] savetxt_def trajectory_text [OF len])
qed

lemma digit_chars:
  "list_all (\<lambda>k. is_digit (char_of (48 + k)) \<and> \<not> is_space (char_of (48 + k)))
     [0, 1, 2, 3, 4, 5, 6, 7, 8, 9 :: int]"
  by code_simp

lemma digit_char:
  assumes "0 \<le> k" "k < 10"
  shows "is_digit (char_of (48 + k :: int))"
proof -
  have "k \<in> set [0, 1, 2, 3, 4, 5, 6, 7, 8, 9 :: int]"
    using assms by (simp; arith)
  then show ?thesis
    using digit_chars unfolding list_all_iff by blast
qed

lemma digits_of_int_digits:
  "0 \<le> n \<Longrightarrow> list_all is_digit (digits_of_int n) \<and> digits_of_int n \<noteq> []"
proof (induction n rule: digits_of_int.induct)
  case (1 n)
  show ?case
  proof (cases "n < 10")
    case True
    then show ?thesis
      using "1.prems" by (subst (1 2) digits_of_int.simps) (simp add: digit_char)
  next
    case False
    then have "list_all is_digit (digits_of_int (n div 10))"
      using "1.IH" "1.prems" by simp
    moreover have "is_digit (char_of (48 + n mod 10))"
      by (rule digit_char) simp_all
    ultimately show ?thesis
      using False by (subst (1 2) digits_of_int.simps) simp
  qed
qed

lemma universal_newlines_Cons:
  "c \<noteq> CHR 0x0D \<Longrightarrow> universal_newlines (c # s) = c # universal_newlines s"
  by (cases s) simp_all

lemma universal_newlines_append:
  "CHR 0x0D \<notin> set a \<Longrightarrow> universal_newlines (a @ b) = a @ universal_newlines b"
proof (induction a)
  case Nil
  then show ?case by simp
next
  case (Cons c a)
  then have "c \<noteq> CHR 0x0D" by auto
  then show ?case
    using Cons by (simp add: universal_newlines_Cons)
qed

lemma readlines_line:
  "CHR 0x0A \<notin> set l \<Longrightarrow> readlines (l @ CHR 0x0A # rest) = (l @ [CHR 0x0A]) # readlines rest"
  by (induction l) auto

lemma third_line:
  assumes "CHR 0x0A \<notin> set l1" "CHR 0x0A \<notin> set l2" "CHR 0x0A \<notin> set l3"
    and "CHR 0x0D \<notin> set l1" "CHR 0x0D \<notin> set l2" "CHR 0x0D \<notin> set l3"
  shows "file_lines (l1 @ CHR 0x0A # l2 @ CHR 0x0A # l3 @ CHR 0x0A # rest) ! 2 = l3 @ [CHR 0x0A]"
proof -
  have "universal_newlines ((l1 @ CHR 0x0A # l2 @ CHR 0x0A # l3 @ [CHR 0x0A]) @ rest)
        = (l1 @ CHR 0x0A # l2 @ CHR 0x0A # l3 @ [CHR 0x0A]) @ universal_newlines rest"
    using assms by (intro universal_newlines_append) simp
  then show ?thesis
    using assms by (simp add: file_lines_def readlines_line)
qed

lemma is_digit_not_line_end: "is_digit c \<Longrightarrow> c \<noteq> CHR 0x0A \<and> c \<noteq> CHR 0x0D"
  by (auto simp: is_digit_def)

lemma trajectory_third_line:
  "file_lines (trajectory_header n @ body) ! 2
   = ''element vertex '' @ show_int (int n) @ newline"
proof -
  have d: "list_all is_digit (show_int (int n))"
    using digits_of_int_digits [of "int n"] by (simp add: show_int_def)
  then have nl: "CHR 0x0A \<notin> set (''element vertex '' @ show_int (int n))"
    and cr: "CHR 0x0D \<notin> set (''element vertex '' @ show_int (int n))"
    using is_digit_not_line_end by (auto simp: list_all_iff)
  have "file_lines (''ply'' @ CHR 0x0A # ''format ascii 1.0'' @ CHR 0x0A
          # (''element vertex '' @ show_int (int n)) @ CHR 0x0A
          # (''property float x\<newline>property float y\<newline>property float z\<newline>property uchar red\<newline>property uchar green\<newline>property uchar blue\<newline>end_header\<newline>'' @ body)) ! 2
        = (''element vertex '' @ show_int (int n)) @ [CHR 0x0A]"
    using nl cr by (intro third_line) simp_all
  then show ?thesis
    by (simp add: trajectory_header_def newline_def)
qed

lemma wellformed_vertex_line_digits:
  "wellformed_vertex_line (''element vertex '' @ show_int (int n) @ newline)"
proof -
  have d: "list_all is_digit (show_int (int n))" "show_int (int n) \<noteq> []"
    using digits_of_int_digits [of "int n"] by (simp_all add: show_int_def)
  have "takeWhile is_digit (show_int (int n) @ newline) = show_int (int n)"
    using d(1) by (simp add: takeWhile_append2 list_all_iff newline_def is_digit_def)
  then show ?thesis
    using d(2) by (simp add: wellformed_vertex_line_def)
qed

lemma save_trajectory_success:
  assumes "fs input_file = Some content"
    and "save_trajectory_from_ORB_SLAM fs input_file output_file = (fs', None)"
  shows "\<exists>xs ys zs.
           trajectory_loop (file_lines content) ([], [], []) = Inr (xs, ys, zs)
           \<and> length xs = length (file_lines content)
           \<and> length ys = length xs \<and> length zs = length xs
           \<and> fs' = fs(output_file \<mapsto> trajectory_header (length xs)
                        @ concat (map trajectory_body_line (zip xs (zip ys zs))))"
proof -
  obtain xs ys zs where l: "trajectory_loop (file_lines content) ([], [], []) = Inr (xs, ys, zs)"
    using assms
    by (cases "trajectory_loop (file_lines content) ([], [], [])")
      (auto simp: save_trajectory_from_ORB_SLAM_def open_read_def)
  have "fs' = fs(output_file \<mapsto> trajectory_header (length xs)
                        @ concat (map trajectory_body_line (zip xs (zip ys zs))))"
    using save_trajectory_result [where fs = fs and input_file = input_file, OF assms(1) l, of output_file]
      assms(2) by simp
  then show ?thesis
    using l trajectory_loop_lengths [OF l] by auto
qed

text \<open>
  Claim C8. When the trajectory converter succeeds, the output file is the header for as
  many vertices as the input has lines, followed by one line per input line in order: the
  three extracted coordinates as floats with six decimals, then \<open>144 238 144\<close>.
\<close>

theorem trajectory_color_constant:
  assumes "fs input_file = Some content"
    and "save_trajectory_from_ORB_SLAM fs input_file output_file = (fs', None)"
  shows "\<exists>xs ys zs.
           trajectory_loop (file_lines content) ([], [], []) = Inr (xs, ys, zs)
           \<and> length xs = length (file_lines content)
           \<and> length ys = length xs \<and> length zs = length xs
           \<and> fs' output_file
             = Some (trajectory_header (length xs)
                     @ concat (map trajectory_body_line (zip xs (zip ys zs))))"
  using save_trajectory_success [where fs = fs and input_file = input_file, OF assms]
  by fastforce

theorem trajectory_color_constant_witness:
  "fst (save_trajectory_from_ORB_SLAM
          [''in'' \<mapsto> ''img.png 1 0 0 10 0 1 0 20 0 0 1 30\<newline>''] ''in'' ''out'') ''out''
   = Some ''ply\<newline>format ascii 1.0\<newline>element vertex 1\<newline>property float x\<newline>property float y\<newline>property float z\<newline>property uchar red\<newline>property uchar green\<newline>property uchar blue\<newline>end_header\<newline>10.000000 20.000000 30.000000 144 238 144\<newline>''"
proof -
  let ?c = "''img.png 1 0 0 10 0 1 0 20 0 0 1 30\<newline>''"
  let ?fs = "[''in'' \<mapsto> ?c]"
  let ?run = "save_trajectory_from_ORB_SLAM ?fs ''in'' ''out''"
  have 1: "?fs ''in'' = Some ?c" by simp
  have "snd ?run = None" by code_simp
  then have 2: "?run = (fst ?run, None)" by (simp add: prod_eq_iff)
  obtain xs ys zs where
    l: "trajectory_loop (file_lines ?c) ([], [], []) = Inr (xs, ys, zs)"
    and w: "fst ?run ''out''
            = Some (trajectory_header (length xs)
                    @ concat (map trajectory_body_line (zip xs (zip ys zs))))"
    using trajectory_color_constant [where fs = ?fs and input_file = "''in''" and content = ?c
        and output_file = "''out''" and fs' = "fst ?run", OF 1 2]
    by blast
  have "trajectory_loop (file_lines ?c) ([], [], [])
        = Inr ([Finite False 10], [Finite False 20], [Finite False 30])"
    by code_simp
  then have v: "xs = [Finite False 10]" "ys = [Finite False 20]" "zs = [Finite False 30]"
    using l by simp_all
  have "trajectory_header (length [Finite False 10])
          @ concat (map trajectory_body_line
                      (zip [Finite False 10] (zip [Finite False 20] [Finite False 30])))
        = ''ply\<newline>format ascii 1.0\<newline>element vertex 1\<newline>property float x\<newline>property float y\<newline>property float z\<newline>property uchar red\<newline>property uchar green\<newline>property uchar blue\<newline>end_header\<newline>10.000000 20.000000 30.000000 144 238 144\<newline>''"
    by code_simp
  then show ?thesis
    using w unfolding v by (simp only:)
qed

text \<open>
  Claim C4, as amended. The trajectory converter applies its header format string to the
  shape of the one-dimensional array \<open>x\<close>. That shape is the 1-tuple \<open>(N,)\<close>, which \<open>%\<close>
  takes as its argument list, so the result is the same string as for the scalar
  \<open>x.shape[0]\<close>: after every successful run the third line of the output is
  \<open>element vertex N\<close> with \<open>N\<close> the number of input lines in decimal digits.
\<close>

theorem trajectory_vertex_line:
  "tuple_get (shape (Arr1 xs)) 0 = Inr (PInt (int (length xs)))
   \<and> py_mod trajectory_header_format (shape (Arr1 xs))
     = py_mod trajectory_header_format (PInt (int (length xs)))
   \<and> (\<forall>fs input_file output_file fs' content.
         fs input_file = Some content
         \<and> save_trajectory_from_ORB_SLAM fs input_file output_file = (fs', None)
         \<longrightarrow> (\<exists>text. fs' output_file = Some text
                \<and> file_lines text ! 2
                  = ''element vertex '' @ show_int (int (length (file_lines content))) @ newline))"
proof (intro conjI allI impI)
  show "tuple_get (shape (Arr1 xs)) 0 = Inr (PInt (int (length xs)))"
    by (simp add: tuple_get_def shape_def list_get_def)
  show "py_mod trajectory_header_format (shape (Arr1 xs))
        = py_mod trajectory_header_format (PInt (int (length xs)))"
    by (simp add: trajectory_header_shape trajectory_header_count)
next
  fix fs :: filesystem and input_file output_file fs' content
  assume a: "fs input_file = Some content
             \<and> save_trajectory_from_ORB_SLAM fs input_file output_file = (fs', None)"
  then obtain ps n where "fs' = fs(output_file \<mapsto> trajectory_header n @ ps)"
    and "n = length (file_lines content)"
    using save_trajectory_success [where fs = fs and input_file = input_file
        and content = content and output_file = output_file and fs' = fs']
    by metis
  then show "\<exists>text. fs' output_file = Some text
                \<and> file_lines text ! 2
                  = ''element vertex '' @ show_int (int (length (file_lines content))) @ newline"
    by (simp add: trajectory_third_line)
qed

text \<open>
  No input makes the trajectory converter succeed with an \<open>element vertex\<close> line that is
  not well-formed.
\<close>

theorem trajectory_vertex_line_counterexample:
  "\<not> (\<exists>fs input_file output_file fs' content text.
        fs input_file = Some content
        \<and> save_trajectory_from_ORB_SLAM fs input_file output_file = (fs', None)
        \<and> fs' output_file = Some text
        \<and> \<not> wellformed_vertex_line (file_lines text ! 2))"
proof
  assume "\<exists>fs input_file output_file fs' content text.
        fs input_file = Some content
        \<and> save_trajectory_from_ORB_SLAM fs input_file output_file = (fs', None)
        \<and> fs' output_file = Some text
        \<and> \<not> wellformed_vertex_line (file_lines text ! 2)"
  then obtain fs input_file output_file fs' content out where
    a: "fs input_file = Some content"
      "save_trajectory_from_ORB_SLAM fs input_file output_file = (fs', None)"
    and t: "fs' output_file = Some out"
    and w: "\<not> wellformed_vertex_line (file_lines out ! 2)"
    by blast
  obtain ps n where "fs' = fs(output_file \<mapsto> trajectory_header n @ ps)"
    using save_trajectory_success [where fs = fs and input_file = input_file, OF a] by metis
  then have "out = trajectory_header n @ ps" using t by simp
  then have "wellformed_vertex_line (file_lines out ! 2)"
    by (simp only: trajectory_third_line wellformed_vertex_line_digits)
  then show False using w by simp
qed

theorem trajectory_vertex_line_witness:
  "\<exists>out. fst (save_trajectory_from_ORB_SLAM
                 [''in'' \<mapsto> ''img.png 1 0 0 10 0 1 0 20 0 0 1 30\<newline>''] ''in'' ''out'') ''out''
          = Some out
        \<and> file_lines out ! 2 = ''element vertex 1\<newline>''"
proof -
  let ?c = "''img.png 1 0 0 10 0 1 0 20 0 0 1 30\<newline>''"
  let ?fs = "[''in'' \<mapsto> ?c]"
  let ?run = "save_trajectory_from_ORB_SLAM ?fs ''in'' ''out''"
  have 1: "?fs ''in'' = Some ?c" by simp
  have "snd ?run = None" by code_simp
  then have 2: "?run = (fst ?run, None)" by (simp add: prod_eq_iff)
  have 3: "''element vertex '' @ show_int (int (length (file_lines ?c))) @ newline
           = ''element vertex 1\<newline>''"
    by code_simp
  have "\<exists>out. fst ?run ''out'' = Some out
          \<and> file_lines out ! 2
            = ''element vertex '' @ show_int (int (length (file_lines ?c))) @ newline"
    using trajectory_vertex_line [of "[]"] 1 2 by blast
  then show ?thesis
    unfolding 3 .
qed

subsection \<open>Map-point files with fewer than two rows\<close>

text \<open>
  Claim C1 at the inputs of one data row and of no data row: \<open>np.genfromtxt\<close> returns a
  one-dimensional array, \<open>coords[:, 0]\<close> raises \<open>IndexError\<close>, and no output file is
  written. The trajectory converter writes a consistent file for one line and for none.
\<close>

theorem pointcloud_fewer_than_two_rows:
  "snd (save_pointcloud_from_ORB_SLAM
          [''in'' \<mapsto> ''pos_x, pos_y, pos_z\<newline>1.0, 2.0, 3.0\<newline>''] ''in'' ''out'') = Some IndexError
   \<and> fst (save_pointcloud_from_ORB_SLAM
          [''in'' \<mapsto> ''pos_x, pos_y, pos_z\<newline>1.0, 2.0, 3.0\<newline>''] ''in'' ''out'') ''out'' = None
   \<and> snd (save_pointcloud_from_ORB_SLAM
          [''in'' \<mapsto> ''pos_x, pos_y, pos_z\<newline>''] ''in'' ''out'') = Some IndexError
   \<and> fst (save_pointcloud_from_ORB_SLAM
          [''in'' \<mapsto> ''pos_x, pos_y, pos_z\<newline>''] ''in'' ''out'') ''out'' = None
   \<and> fst (save_trajectory_from_ORB_SLAM [''in'' \<mapsto> []] ''in'' ''out'') ''out''
     = Some ''ply\<newline>format ascii 1.0\<newline>element vertex 0\<newline>property float x\<newline>property float y\<newline>property float z\<newline>property uchar red\<newline>property uchar green\<newline>property uchar blue\<newline>end_header\<newline>''"
  by code_simp

subsection \<open>Well-formed floats\<close>

lemma round_half_even_nonneg: "0 \<le> q \<Longrightarrow> 0 \<le> round_half_even q"
proof -
  assume "0 \<le> q"
  then have "0 \<le> \<lfloor>q\<rfloor>" by simp
  then show ?thesis
    by (auto simp: round_half_even_def Let_def)
qed

lemma pow_int_pos: "0 < b \<Longrightarrow> 0 < pow_int b e"
  by (simp add: pow_int_def)

lemma round_binary_wf: "0 \<le> q \<Longrightarrow> wf_float (round_binary p emin emax s q)"
proof -
  assume q: "0 \<le> q"
  have "0 \<le> of_int (round_half_even (q / pow_int 2 e)) * pow_int 2 e" for e
  proof -
    have "0 < pow_int 2 e" by (rule pow_int_pos) simp
    moreover from this have "0 \<le> q / pow_int 2 e" using q by simp
    then have "0 \<le> round_half_even (q / pow_int 2 e)" by (rule round_half_even_nonneg)
    ultimately show ?thesis by simp
  qed
  then show ?thesis
    by (simp add: round_binary_def wf_float_def Let_def)
qed

lemma digit_val_nonneg: "is_digit c \<Longrightarrow> 0 \<le> digit_val c"
  by (auto simp: is_digit_def digit_val_def)

lemma foldl_digits_nonneg:
  "0 \<le> a \<Longrightarrow> list_all is_digit s \<Longrightarrow> 0 \<le> foldl (\<lambda>a c. 10 * a + digit_val c) a s"
proof (induction s arbitrary: a)
  case Nil
  then show ?case by simp
next
  case (Cons c s)
  then have "0 \<le> 10 * a + digit_val c"
    using digit_val_nonneg [of c] by simp
  then show ?case using Cons by simp
qed

lemma digits_val_nonneg: "0 \<le> digits_val s"
  unfolding digits_val_def by (rule foldl_digits_nonneg) (simp_all add: list_all_iff)

lemma parse_decimal_nonneg: "parse_decimal s = Some q \<Longrightarrow> 0 \<le> q"
proof -
  assume "parse_decimal s = Some q"
  then obtain n e where "q = of_int (digits_val n) * pow_int 10 e"
    by (auto simp: parse_decimal_def Let_def split: if_splits option.splits)
  moreover have "(0::rat) < pow_int 10 e" by (rule pow_int_pos) simp
  ultimately show ?thesis
    using digits_val_nonneg [of n] by simp
qed

lemma parse_float_wf: "parse_float s = Some v \<Longrightarrow> wf_float v"
  by (auto simp: parse_float_def Let_def wf_float_def [of NaN] wf_float_def [of "Infinite _"]
      to_double_def split: if_splits dest!: parse_decimal_nonneg intro: round_binary_wf)

lemma py_float_wf: "py_float s = Some v \<Longrightarrow> wf_float v"
  unfolding py_float_def by (rule parse_float_wf)

lemma genfromtxt_float_wf: "wf_float (genfromtxt_float f)"
  by (auto simp: genfromtxt_float_def wf_float_def [of NaN] split: option.splits dest: py_float_wf)

subsection \<open>Decimal digits\<close>

lemma digit_vals:
  "list_all (\<lambda>k. digit_val (char_of (48 + k)) = k) [0, 1, 2, 3, 4, 5, 6, 7, 8, 9 :: int]"
  by code_simp

lemma digit_val_char:
  assumes "0 \<le> k" "k < 10"
  shows "digit_val (char_of (48 + k :: int)) = k"
proof -
  have "k \<in> set [0, 1, 2, 3, 4, 5, 6, 7, 8, 9 :: int]"
    using assms by (simp; arith)
  then show ?thesis
    using digit_vals unfolding list_all_iff by blast
qed

lemma foldl_digits_shift:
  "foldl (\<lambda>a c. 10 * a + digit_val c) a ys
   = a * 10 ^ length ys + foldl (\<lambda>a c. 10 * a + digit_val c) 0 ys"
  by (induction ys rule: rev_induct) (simp_all add: algebra_simps)

lemma digits_val_all: "list_all is_digit s \<Longrightarrow> digits_val s = foldl (\<lambda>a c. 10 * a + digit_val c) 0 s"
  by (simp add: digits_val_def list_all_iff)

lemma digits_val_append:
  assumes "list_all is_digit xs" "list_all is_digit ys"
  shows "digits_val (xs @ ys) = digits_val xs * 10 ^ length ys + digits_val ys"
proof -
  have "list_all is_digit (xs @ ys)" using assms by simp
  then show ?thesis
    using assms foldl_digits_shift [of "foldl (\<lambda>a c. 10 * a + digit_val c) 0 xs" ys]
    by (simp only: digits_val_all foldl_append)
qed

lemma digits_val_digits_of_int: "0 \<le> n \<Longrightarrow> digits_val (digits_of_int n) = n"
proof (induction n rule: digits_of_int.induct)
  case (1 n)
  show ?case
  proof (cases "n < 10")
    case True
    then have "digits_of_int n = [char_of (48 + n)]"
      by (subst digits_of_int.simps) simp
    moreover have "is_digit (char_of (48 + n))"
      using True "1.prems" by (intro digit_char)
    ultimately show ?thesis
      using True "1.prems" by (simp add: digits_val_def digit_val_char)
  next
    case False
    then have d: "digits_of_int n = digits_of_int (n div 10) @ [char_of (48 + n mod 10)]"
      by (subst digits_of_int.simps) simp
    have a: "list_all is_digit (digits_of_int (n div 10))"
      using digits_of_int_digits [of "n div 10"] "1.prems" by simp
    have b: "list_all is_digit [char_of (48 + n mod 10)]"
      by (simp add: digit_char)
    have "digits_val [char_of (48 + n mod 10)] = n mod 10"
      using b by (simp add: digits_val_def digit_val_char)
    moreover have "digits_val (digits_of_int (n div 10)) = n div 10"
      using "1.IH" False "1.prems" by simp
    ultimately show ?thesis
      unfolding d using digits_val_append [OF a b] by simp
  qed
qed

lemma digits_val_zeros: "digits_val (replicate k (CHR ''0'')) = 0"
  by (induction k) (simp_all add: digits_val_def is_digit_def digit_val_def)

lemma digits_of_int_length:
  "0 \<le> n \<Longrightarrow> n < 10 ^ k \<Longrightarrow> 0 < k \<Longrightarrow> length (digits_of_int n) \<le> k"
proof (induction n arbitrary: k rule: digits_of_int.induct)
  case (1 n)
  show ?case
  proof (cases "n < 10")
    case True
    then show ?thesis
      using "1.prems" by (subst digits_of_int.simps) simp
  next
    case False
    obtain j where k: "k = Suc j" using "1.prems"(3) by (cases k) auto
    have "j \<noteq> 0" using False "1.prems"(2) k by (cases j) auto
    moreover have "n div 10 < 10 ^ j"
      using "1.prems"(2) k by simp
    ultimately have "length (digits_of_int (n div 10)) \<le> j"
      using "1.IH" [of j] False "1.prems"(1) by simp
    then show ?thesis
      using False k by (subst digits_of_int.simps) simp
  qed
qed

lemma digitpart_digits: "list_all is_digit s \<Longrightarrow> s \<noteq> [] \<Longrightarrow> digitpart s"
  by (induction s rule: digitpart.induct) (auto simp: is_digit_def)

subsection \<open>Reading back a written float\<close>

lemma digit_properties:
  "list_all (\<lambda>c. \<not> is_space c \<and> c \<noteq> CHR ''#'' \<and> c \<noteq> CHR ''.'' \<and> c \<noteq> CHR ''-''
     \<and> c \<noteq> CHR ''+'' \<and> \<not> is_exp_char c \<and> to_lower c = c \<and> c \<noteq> CHR ''i'' \<and> c \<noteq> CHR ''n''
     \<and> c \<noteq> CHR ''_'')
     ''0123456789''"
  by code_simp

lemma is_digit_plain:
  "is_digit c \<Longrightarrow> \<not> is_space c \<and> c \<noteq> CHR ''#'' \<and> c \<noteq> CHR ''.'' \<and> c \<noteq> CHR ''-''
     \<and> c \<noteq> CHR ''+'' \<and> \<not> is_exp_char c \<and> to_lower c = c \<and> c \<noteq> CHR ''i'' \<and> c \<noteq> CHR ''n''
     \<and> c \<noteq> CHR ''_''"
  using digit_properties unfolding is_digit_def list_all_iff by blast

lemma is_digit_not_space: "is_digit c \<Longrightarrow> \<not> is_space c"
  using is_digit_plain by blast

lemma is_digit_not_hash: "is_digit c \<Longrightarrow> c \<noteq> CHR ''#''"
  using is_digit_plain by blast

lemma marks_not_space: "\<not> is_space (CHR ''.'')" "\<not> is_space (CHR ''-'')"
  by (simp_all add: is_space_def)

lemma strip_chars_none: "\<forall>c\<in>set s. \<not> p c \<Longrightarrow> strip_chars p s = s"
proof -
  assume a: "\<forall>c\<in>set s. \<not> p c"
  then have "dropWhile p s = s" by (cases s) auto
  moreover have "dropWhile p (rev s) = rev s" using a by (cases "rev s") auto
  ultimately show ?thesis by (simp add: strip_chars_def)
qed

lemma parse_decimal_digits:
  assumes "list_all is_digit ip" "ip \<noteq> []" "list_all is_digit fp" "fp \<noteq> []"
  shows "parse_decimal (ip @ CHR ''.'' # fp)
         = Some (of_int (digits_val (ip @ fp)) * pow_int 10 (- int (length fp)))"
proof -
  have ne: "\<forall>c\<in>set (ip @ CHR ''.'' # fp). \<not> is_exp_char c"
    using assms(1,3) is_digit_plain by (auto simp: list_all_iff is_exp_char_def)
  have m: "takeWhile (\<lambda>c. \<not> is_exp_char c) (ip @ CHR ''.'' # fp) = ip @ CHR ''.'' # fp"
    using ne by (simp add: takeWhile_eq_all_conv)
  have r: "dropWhile (\<lambda>c. \<not> is_exp_char c) (ip @ CHR ''.'' # fp) = []"
    using ne by (simp add: dropWhile_eq_Nil_conv)
  have nd: "\<And>x. x \<in> set ip \<Longrightarrow> x \<noteq> CHR ''.''"
    using assms(1) is_digit_plain by (auto simp: list_all_iff)
  have i: "takeWhile (\<lambda>c. c \<noteq> CHR ''.'') (ip @ CHR ''.'' # fp) = ip"
    using nd by (simp add: takeWhile_append2)
  have f: "dropWhile (\<lambda>c. c \<noteq> CHR ''.'') (ip @ CHR ''.'' # fp) = CHR ''.'' # fp"
    using nd by (simp add: dropWhile_append2)
  have fl: "filter is_digit fp = fp"
    using assms(3) by (simp add: list_all_iff)
  show ?thesis
    using assms digitpart_digits [of ip] digitpart_digits [of fp]
    by (simp add: parse_decimal_def m r i f fl parse_exponent_def)
qed

lemma parse_float_body_pos:
  assumes "c \<noteq> CHR ''-''" "c \<noteq> CHR ''+''"
    and "to_lower c \<noteq> CHR ''i''" "to_lower c \<noteq> CHR ''n''"
  shows "parse_float (c # cs) = map_option (to_double False) (parse_decimal (c # cs))"
  unfolding parse_float_def Let_def
  using assms by simp

lemma parse_float_body_neg:
  assumes "to_lower c \<noteq> CHR ''i''" "to_lower c \<noteq> CHR ''n''"
  shows "parse_float (CHR ''-'' # c # cs) = map_option (to_double True) (parse_decimal (c # cs))"
  unfolding parse_float_def Let_def
  using assms by simp

lemma parse_float_body:
  assumes "b = c # cs" "c \<noteq> CHR ''-''" "c \<noteq> CHR ''+''"
    and "to_lower c \<noteq> CHR ''i''" "to_lower c \<noteq> CHR ''n''"
  shows "parse_float ((if s then ''-'' else []) @ b) = map_option (to_double s) (parse_decimal b)"
proof (cases s)
  case True
  from parse_float_body_neg [OF assms(4,5)] show ?thesis
    using True by (simp add: assms(1))
next
  case False
  from parse_float_body_pos [OF assms(2-5)] show ?thesis
    using False by (simp add: assms(1))
qed

lemma parse_float_decimal:
  assumes "list_all is_digit ip" "ip \<noteq> []" "list_all is_digit fp" "fp \<noteq> []"
  shows "parse_float ((if s then ''-'' else []) @ ip @ CHR ''.'' # fp)
         = Some (to_double s (of_int (digits_val (ip @ fp)) * pow_int 10 (- int (length fp))))"
proof -
  obtain c cs where ip: "ip = c # cs" using assms(2) by (cases ip) auto
  have c: "is_digit c" using assms(1) ip by simp
  have b: "ip @ CHR ''.'' # fp = c # (cs @ CHR ''.'' # fp)"
    by (simp add: ip)
  have "parse_float ((if s then ''-'' else []) @ (ip @ CHR ''.'' # fp))
        = map_option (to_double s) (parse_decimal (ip @ CHR ''.'' # fp))"
  proof (rule parse_float_body [OF b])
    show "c \<noteq> CHR ''-''" "c \<noteq> CHR ''+''" "to_lower c \<noteq> CHR ''i''" "to_lower c \<noteq> CHR ''n''"
      using is_digit_plain [OF c] by simp_all
  qed
  then show ?thesis
    by (simp add: parse_decimal_digits [OF assms])
qed

lemma special_floats:
  "parse_float ''nan'' = Some NaN" "parse_float ''inf'' = Some (Infinite False)"
  "parse_float ''-inf'' = Some (Infinite True)"
  by code_simp+

lemma fmt_f_fraction:
  assumes "0 \<le> b" "b < 1000000"
  shows "list_all is_digit (replicate (6 - length (digits_of_int b)) (CHR ''0'') @ digits_of_int b)"
    and "length (replicate (6 - length (digits_of_int b)) (CHR ''0'') @ digits_of_int b) = 6"
    and "digits_val (replicate (6 - length (digits_of_int b)) (CHR ''0'') @ digits_of_int b) = b"
proof -
  have d: "list_all is_digit (digits_of_int b)"
    using digits_of_int_digits assms(1) by simp
  have z: "list_all is_digit (replicate k (CHR ''0''))" for k
    by (simp add: list_all_iff is_digit_def)
  have "length (digits_of_int b) \<le> 6"
    using assms by (intro digits_of_int_length) simp_all
  then show "length (replicate (6 - length (digits_of_int b)) (CHR ''0'') @ digits_of_int b) = 6"
    by simp
  show "list_all is_digit (replicate (6 - length (digits_of_int b)) (CHR ''0'') @ digits_of_int b)"
    using d z by simp
  show "digits_val (replicate (6 - length (digits_of_int b)) (CHR ''0'') @ digits_of_int b) = b"
    using digits_val_append [OF z d] assms(1)
    by (simp add: digits_val_zeros digits_val_digits_of_int)
qed

lemma fmt_f_finite:
  assumes "0 \<le> q"
  shows "\<exists>ip fp. fmt_f (Finite s q) = (if s then ''-'' else []) @ ip @ CHR ''.'' # fp
           \<and> list_all is_digit ip \<and> ip \<noteq> [] \<and> list_all is_digit fp \<and> length fp = 6
           \<and> digits_val (ip @ fp) = round_half_even (q * 1000000)"
proof -
  define n where "n = round_half_even (q * 1000000)"
  define ip where "ip = digits_of_int (n div 1000000)"
  define fp where
    "fp = replicate (6 - length (digits_of_int (n mod 1000000))) (CHR ''0'')
          @ digits_of_int (n mod 1000000)"
  have n: "0 \<le> n"
    unfolding n_def using assms by (intro round_half_even_nonneg) simp
  then have a: "0 \<le> n div 1000000" by (simp add: pos_imp_zdiv_nonneg_iff)
  have b: "0 \<le> n mod 1000000" "n mod 1000000 < 1000000" by simp_all
  have i: "list_all is_digit ip" "ip \<noteq> []" "digits_val ip = n div 1000000"
    using digits_of_int_digits [OF a] digits_val_digits_of_int [OF a] by (simp_all add: ip_def)
  have f: "list_all is_digit fp" "length fp = 6" "digits_val fp = n mod 1000000"
    unfolding fp_def using fmt_f_fraction [OF b] by simp_all
  have s: "fmt_f (Finite s q) = (if s then ''-'' else []) @ ip @ CHR ''.'' # fp"
    by (simp add: fmt_f_def Let_def n_def ip_def fp_def)
  have "digits_val (ip @ fp) = n"
    using digits_val_append [OF i(1) f(1)] i(3) f(2,3) by simp
  then show ?thesis
    using s i(1,2) f(1,2) unfolding n_def by blast
qed

lemma parse_float_fmt_f:
  assumes "wf_float v"
  shows "parse_float (fmt_f v) = Some (reread6 v)"
proof (cases v)
  case (Finite s q)
  then have "0 \<le> q" using assms by (simp add: wf_float_def)
  from fmt_f_finite [OF this, of s] obtain ip fp where
    s: "fmt_f (Finite s q) = (if s then ''-'' else []) @ ip @ CHR ''.'' # fp"
    and i: "list_all is_digit ip" "ip \<noteq> []"
    and f: "list_all is_digit fp" "length fp = 6"
    and d: "digits_val (ip @ fp) = round_half_even (q * 1000000)"
    by blast
  have fne: "fp \<noteq> []" using f(2) by auto
  have "of_int (digits_val (ip @ fp)) * pow_int 10 (- int (length fp))
        = (of_int (round_half_even (q * 1000000)) :: rat) / 1000000"
    by (simp add: d f(2) pow_int_def)
  then have "parse_float (fmt_f (Finite s q))
             = Some (to_double s (of_int (round_half_even (q * 1000000)) / 1000000))"
    unfolding s using parse_float_decimal [OF i f(1) fne, of s] by (simp only:)
  then show ?thesis
    by (simp add: Finite reread6_def)
next
  case (Infinite s)
  then show ?thesis by (cases s) (simp_all add: fmt_f_def reread6_def special_floats)
next
  case NaN
  then show ?thesis by (simp add: fmt_f_def reread6_def special_floats)
qed

lemma special_plain:
  "list_all (\<lambda>c. \<not> is_space c \<and> c \<noteq> CHR ''#'' \<and> c \<noteq> CHR ''_'') ''nan-inf.''"
  by code_simp

lemma fmt_f_plain:
  assumes "wf_float v"
  shows "fmt_f v \<noteq> []
         \<and> (\<forall>c\<in>set (fmt_f v). \<not> is_space c \<and> c \<noteq> CHR ''#'' \<and> c \<noteq> CHR ''_'')"
proof (cases v)
  case (Finite s q)
  then have "0 \<le> q" using assms by (simp add: wf_float_def)
  from fmt_f_finite [OF this, of s] obtain ip fp where
    s: "fmt_f (Finite s q) = (if s then ''-'' else []) @ ip @ CHR ''.'' # fp"
    and i: "list_all is_digit ip" and f: "list_all is_digit fp"
    by blast
  have "\<forall>c\<in>set ip \<union> set fp. \<not> is_space c \<and> c \<noteq> CHR ''#'' \<and> c \<noteq> CHR ''_''"
    using i f is_digit_plain by (auto simp: list_all_iff)
  moreover have "\<forall>c\<in>set ''-.''. \<not> is_space c \<and> c \<noteq> CHR ''#'' \<and> c \<noteq> CHR ''_''"
    using special_plain by (simp add: list_all_iff)
  ultimately show ?thesis
    unfolding Finite s by (cases s) auto
next
  case (Infinite s)
  then show ?thesis
    using special_plain by (cases s) (simp_all add: fmt_f_def list_all_iff)
next
  case NaN
  then show ?thesis
    using special_plain by (simp add: fmt_f_def list_all_iff)
qed

lemma np_float_fmt_f:
  assumes "wf_float v"
  shows "np_float (fmt_f v) = Some (reread6 v)"
proof -
  have "\<forall>c\<in>set (fmt_f v). \<not> is_space c" and u: "CHR ''_'' \<notin> set (fmt_f v)"
    using fmt_f_plain [OF assms] by auto
  then have "strip_chars is_space (fmt_f v) = fmt_f v"
    by (intro strip_chars_none)
  then show ?thesis
    using u by (simp add: np_float_def parse_float_fmt_f [OF assms])
qed

subsection \<open>The viewer on the output of the point-cloud converter\<close>

lemma py_split_ws_space: "is_space c \<Longrightarrow> py_split_ws (c # s) = py_split_ws s"
  by (subst (1 2) py_split_ws.simps) simp

lemma py_split_ws_Nil: "py_split_ws [] = []"
  by (subst py_split_ws.simps) simp

lemma py_split_ws_word:
  assumes "w \<noteq> []" "\<forall>c\<in>set w. \<not> is_space c" "is_space sp"
  shows "py_split_ws (w @ sp # rest) = w # py_split_ws rest"
proof -
  obtain c cs where w: "w = c # cs" using assms(1) by (cases w) auto
  have nc: "\<not> is_space c" using assms(2) w by simp
  have 2: "takeWhile (\<lambda>x. \<not> is_space x) (cs @ sp # rest) = cs"
    using assms(2,3) w by (simp add: takeWhile_append2)
  have 3: "dropWhile (\<lambda>x. \<not> is_space x) (cs @ sp # rest) = sp # rest"
    using assms(2,3) w by (simp add: dropWhile_append2)
  show ?thesis
    by (subst py_split_ws.simps) (simp add: nc 2 3 w py_split_ws_space [OF assms(3)])
qed

lemma is_space_newline: "is_space (CHR 0x0A)"
  by (simp add: is_space_def)

lemma loadtxt_split_body_line:
  assumes "wf_float x" "wf_float y" "wf_float z"
  shows "loadtxt_split_line (fmt_f x @ '' '' @ fmt_f y @ '' '' @ fmt_f z @ newline)
         = [fmt_f x, fmt_f y, fmt_f z]"
proof -
  let ?l = "fmt_f x @ CHR 0x20 # fmt_f y @ CHR 0x20 # fmt_f z @ CHR 0x0A # []"
  have p: "fmt_f x \<noteq> []" "\<forall>c\<in>set (fmt_f x). \<not> is_space c" "\<forall>c\<in>set (fmt_f x). c \<noteq> CHR ''#''"
    "fmt_f y \<noteq> []" "\<forall>c\<in>set (fmt_f y). \<not> is_space c" "\<forall>c\<in>set (fmt_f y). c \<noteq> CHR ''#''"
    "fmt_f z \<noteq> []" "\<forall>c\<in>set (fmt_f z). \<not> is_space c" "\<forall>c\<in>set (fmt_f z). c \<noteq> CHR ''#''"
    using fmt_f_plain [OF assms(1)] fmt_f_plain [OF assms(2)] fmt_f_plain [OF assms(3)]
    by simp_all
  have "\<forall>c\<in>set ?l. c \<noteq> CHR ''#''"
    using p(3,6,9) by auto
  then have t: "takeWhile (\<lambda>c. c \<noteq> CHR ''#'') ?l = ?l"
    by (simp only: takeWhile_eq_all_conv)
  have "py_split_ws ?l = fmt_f x # py_split_ws (fmt_f y @ CHR 0x20 # fmt_f z @ CHR 0x0A # [])"
    using p(1,2) is_space_blank by (rule py_split_ws_word)
  also have "py_split_ws (fmt_f y @ CHR 0x20 # fmt_f z @ CHR 0x0A # [])
             = fmt_f y # py_split_ws (fmt_f z @ CHR 0x0A # [])"
    using p(4,5) is_space_blank by (rule py_split_ws_word)
  also have "py_split_ws (fmt_f z @ CHR 0x0A # []) = fmt_f z # py_split_ws []"
    using p(7,8) is_space_newline by (rule py_split_ws_word)
  finally have "py_split_ws ?l = [fmt_f x, fmt_f y, fmt_f z]"
    by (simp add: py_split_ws_Nil)
  then show ?thesis
    unfolding loadtxt_split_line_def using t by (simp add: newline_def)
qed

lemma file_lines_concat:
  assumes "\<forall>l\<in>set ls. CHR 0x0A \<notin> set l \<and> CHR 0x0D \<notin> set l"
  shows "file_lines (concat (map (\<lambda>l. l @ [CHR 0x0A]) ls)) = map (\<lambda>l. l @ [CHR 0x0A]) ls"
  using assms
proof (induction ls)
  case Nil
  then show ?case by (simp add: file_lines_def)
next
  case (Cons l ls)
  have "universal_newlines ((l @ [CHR 0x0A]) @ concat (map (\<lambda>l. l @ [CHR 0x0A]) ls))
        = (l @ [CHR 0x0A]) @ universal_newlines (concat (map (\<lambda>l. l @ [CHR 0x0A]) ls))"
    using Cons.prems by (intro universal_newlines_append) simp
  moreover have "readlines (l @ CHR 0x0A # universal_newlines (concat (map (\<lambda>l. l @ [CHR 0x0A]) ls)))
        = (l @ [CHR 0x0A]) # readlines (universal_newlines (concat (map (\<lambda>l. l @ [CHR 0x0A]) ls)))"
    using Cons.prems by (intro readlines_line) simp
  moreover have "file_lines (concat (map (\<lambda>l. l @ [CHR 0x0A]) ls)) = map (\<lambda>l. l @ [CHR 0x0A]) ls"
    using Cons.prems by (intro Cons.IH) simp
  ultimately show ?case
    by (simp add: file_lines_def)
qed

lemma py_strip_line:
  assumes "s \<noteq> []" "\<not> is_space (hd s)" "\<not> is_space (last s)"
  shows "py_strip (s @ [CHR 0x0A]) = s"
  unfolding py_strip_def using assms by (intro strip_chars_append) (simp_all add: is_space_newline)

lemma find_header_end_skip:
  "py_strip l \<noteq> ''end_header'' \<Longrightarrow> find_header_end i (l # ls) = find_header_end (Suc i) ls"
  by simp

lemma find_header_end_hit:
  "py_strip l = ''end_header'' \<Longrightarrow> find_header_end i (l # ls) = Suc i"
  by simp

lemma pointcloud_header_concat:
  "pointcloud_header n = concat (map (\<lambda>l. l @ [CHR 0x0A]) (pointcloud_header_lines n))"
  by (simp add: pointcloud_header_def pointcloud_header_lines_def)

lemma show_int_digits: "list_all is_digit (show_int (int n)) \<and> show_int (int n) \<noteq> []"
  using digits_of_int_digits [of "int n"] by (simp add: show_int_def)

lemma vertex_line_strip:
  "py_strip ((''element vertex '' @ show_int (int n)) @ [CHR 0x0A]) = ''element vertex '' @ show_int (int n)"
proof (rule py_strip_line)
  show "''element vertex '' @ show_int (int n) \<noteq> []" by simp
  show "\<not> is_space (hd (''element vertex '' @ show_int (int n)))" by (simp add: is_space_def)
  have "last (''element vertex '' @ show_int (int n)) \<in> set (show_int (int n))"
    using show_int_digits [of n] by simp
  then show "\<not> is_space (last (''element vertex '' @ show_int (int n)))"
    using show_int_digits [of n] is_digit_not_space by (auto simp: list_all_iff)
qed

lemma header_strips:
  "py_strip ''ply\<newline>'' = ''ply''" "py_strip ''format ascii 1.0\<newline>'' = ''format ascii 1.0''"
  "py_strip ''property float x\<newline>'' = ''property float x''"
  "py_strip ''property float y\<newline>'' = ''property float y''"
  "py_strip ''property float z\<newline>'' = ''property float z''"
  "py_strip ''end_header\<newline>'' = ''end_header''"
  by code_simp+

lemma pointcloud_find_header_end:
  "find_header_end 0 (map (\<lambda>l. l @ [CHR 0x0A]) (pointcloud_header_lines n) @ body) = 7"
  using vertex_line_strip [of n]
  by (simp add: pointcloud_header_lines_def header_strips)

lemma loadtxt_float32_fmt_f: "wf_float v \<Longrightarrow> loadtxt_float32 (fmt_f v) = Some (read_back v)"
  by (simp add: loadtxt_float32_def np_float_fmt_f read_back_def)

lemma wf_row_nth: "wf_row r \<Longrightarrow> wf_float (r ! 0) \<and> wf_float (r ! 1) \<and> wf_float (r ! 2)"
proof -
  assume "wf_row r"
  then have l: "3 \<le> length r" and a: "\<And>i. i < length r \<Longrightarrow> wf_float (r ! i)"
    by (simp_all add: wf_row_def list_all_length)
  have "0 < length r" "1 < length r" "2 < length r" using l by auto
  then show ?thesis using a by blast
qed

lemma body_line_fields:
  "wf_row r \<Longrightarrow> loadtxt_split_line (pointcloud_body_line r) = [fmt_f (r ! 0), fmt_f (r ! 1), fmt_f (r ! 2)]"
  unfolding pointcloud_body_line_def using wf_row_nth [of r] by (intro loadtxt_split_body_line) simp_all

lemma body_rows:
  "\<forall>r\<in>set rows. wf_row r \<Longrightarrow>
   filter (\<lambda>vs. vs \<noteq> []) (map loadtxt_split_line (map pointcloud_body_line rows))
   = map (\<lambda>r. [fmt_f (r ! 0), fmt_f (r ! 1), fmt_f (r ! 2)]) rows"
  by (induction rows) (simp_all add: body_line_fields)

lemma convert_body_rows:
  "\<forall>r\<in>set rows. wf_row r \<Longrightarrow>
   convert_rows (map (\<lambda>r. [fmt_f (r ! 0), fmt_f (r ! 1), fmt_f (r ! 2)]) rows)
   = Some (map (\<lambda>r. [read_back (r ! 0), read_back (r ! 1), read_back (r ! 2)]) rows)"
proof (induction rows)
  case Nil
  then show ?case by simp
next
  case (Cons r rows)
  then have "wf_row r" by simp
  then show ?case
    using Cons wf_row_nth [of r] by (simp add: loadtxt_float32_fmt_f)
qed

lemma squeeze_wide: "2 \<le> length rows \<Longrightarrow> 2 \<le> n \<Longrightarrow> squeeze (Arr2 n rows) = Arr2 n rows"
proof -
  assume a: "2 \<le> length rows" "2 \<le> n"
  then obtain r r' rs where "rows = r # r' # rs"
    by (cases rows; cases "tl rows") auto
  then show ?thesis using a(2) by simp
qed

lemma loadtxt_rows:
  assumes "filter (\<lambda>vs. vs \<noteq> []) (map loadtxt_split_line ls) = first # rest"
    and "\<not> list_ex (\<lambda>r. length r \<noteq> length first) rest"
    and "convert_rows (first # rest) = Some vs"
  shows "loadtxt ls = Inr (squeeze (Arr2 (length first) vs))"
  by (simp add: loadtxt_def assms del: squeeze.simps convert_rows.simps)

lemma loadtxt_body:
  assumes "\<forall>r\<in>set rows. wf_row r" "2 \<le> length rows"
  shows "loadtxt (map pointcloud_body_line rows)
         = Inr (Arr2 3 (map (\<lambda>r. [read_back (r ! 0), read_back (r ! 1), read_back (r ! 2)]) rows))"
proof -
  let ?f = "\<lambda>r. [fmt_f (r ! 0), fmt_f (r ! 1), fmt_f (r ! 2)]"
  let ?g = "\<lambda>r. [read_back (r ! 0), read_back (r ! 1), read_back (r ! 2)]"
  obtain r rs where rows: "rows = r # rs" using assms(2) by (cases rows) auto
  have 1: "filter (\<lambda>vs. vs \<noteq> []) (map loadtxt_split_line (map pointcloud_body_line rows))
           = ?f r # map ?f rs"
    using body_rows [OF assms(1)] by (simp only: rows list.map)
  have 2: "\<not> list_ex (\<lambda>v. length v \<noteq> length (?f r)) (map ?f rs)"
    by (simp add: list_ex_iff)
  have 3: "convert_rows (?f r # map ?f rs) = Some (map ?g rows)"
    using convert_body_rows [OF assms(1)] by (simp only: rows list.map)
  have "squeeze (Arr2 3 (map ?g rows)) = Arr2 3 (map ?g rows)"
    using assms(2) by (intro squeeze_wide) simp_all
  moreover have "length (?f r) = 3" by simp
  ultimately show ?thesis
    using loadtxt_rows [OF 1 2 3] by (simp only:)
qed

lemma fmt_f_no_line_end:
  "wf_float v \<Longrightarrow> CHR 0x0A \<notin> set (fmt_f v) \<and> CHR 0x0D \<notin> set (fmt_f v)"
  using fmt_f_plain [of v] by (auto simp: is_space_def)

lemma pointcloud_text_lines:
  assumes "\<forall>r\<in>set rows. wf_row r"
  shows "file_lines (pointcloud_header n @ concat (map pointcloud_body_line rows))
         = map (\<lambda>l. l @ [CHR 0x0A]) (pointcloud_header_lines n) @ map pointcloud_body_line rows"
proof -
  let ?b = "\<lambda>r. fmt_f (r ! 0) @ '' '' @ fmt_f (r ! 1) @ '' '' @ fmt_f (r ! 2)"
  have b: "pointcloud_body_line = (\<lambda>r. ?b r @ [CHR 0x0A])"
    by (simp add: pointcloud_body_line_def fun_eq_iff newline_def)
  have d: "CHR 0x0A \<notin> set (show_int (int n)) \<and> CHR 0x0D \<notin> set (show_int (int n))"
    using show_int_digits [of n] is_digit_not_line_end by (auto simp: list_all_iff)
  have h: "\<forall>l\<in>set (pointcloud_header_lines n). CHR 0x0A \<notin> set l \<and> CHR 0x0D \<notin> set l"
    using d by (simp add: pointcloud_header_lines_def)
  have r: "\<forall>l\<in>set (map ?b rows). CHR 0x0A \<notin> set l \<and> CHR 0x0D \<notin> set l"
  proof
    fix l assume "l \<in> set (map ?b rows)"
    then obtain r where "r \<in> set rows" "l = ?b r" by auto
    then show "CHR 0x0A \<notin> set l \<and> CHR 0x0D \<notin> set l"
      using assms wf_row_nth [of r] fmt_f_no_line_end by simp
  qed
  have "pointcloud_header n @ concat (map pointcloud_body_line rows)
        = concat (map (\<lambda>l. l @ [CHR 0x0A]) (pointcloud_header_lines n @ map ?b rows))"
    by (simp add: pointcloud_header_concat b comp_def)
  moreover have "file_lines (concat (map (\<lambda>l. l @ [CHR 0x0A]) (pointcloud_header_lines n @ map ?b rows)))
        = map (\<lambda>l. l @ [CHR 0x0A]) (pointcloud_header_lines n @ map ?b rows)"
    using h r by (intro file_lines_concat) auto
  ultimately show ?thesis
    by (simp add: b comp_def)
qed

lemma pointcloud_header_lines_length: "length (pointcloud_header_lines n) = 7"
  by (simp add: pointcloud_header_lines_def)

lemma plot_pointcloud_text:
  assumes "\<forall>r\<in>set rows. wf_row r" "2 \<le> length rows"
    and "fs ply_file = Some (pointcloud_header n @ concat (map pointcloud_body_line rows))"
  shows "plot_3d_point_cloud fs ply_file
         = Inr (Arr1 (map (\<lambda>r. read_back (r ! 0)) rows),
                Arr1 (map (\<lambda>r. read_back (r ! 1)) rows),
                Arr1 (map (\<lambda>r. read_back (r ! 2)) rows))"
  using assms(3)
  by (simp add: plot_3d_point_cloud_def open_read_def pointcloud_text_lines [OF assms(1)]
      pointcloud_find_header_end pointcloud_header_lines_length
      loadtxt_body [OF assms(1,2)] column_def comp_def)

lemma genfromtxt_Arr2:
  assumes "genfromtxt fs fname d k = Inr (Arr2 n rows)"
  shows "2 \<le> length rows \<and> (\<forall>r\<in>set rows. length r = n \<and> list_all wf_float r)"
proof -
  obtain content where c: "fs fname = Some content"
    using assms by (cases "fs fname") (auto simp: genfromtxt_def open_read_def)
  let ?rs = "filter (\<lambda>vs. vs \<noteq> []) (map (genfromtxt_split_line d) (drop k (file_lines content)))"
  obtain first rest where rs: "?rs = first # rest"
    using assms c by (cases ?rs) (auto simp: genfromtxt_def open_read_def)
  have ne: "\<not> list_ex (\<lambda>r. length r \<noteq> length first) rest"
    and sq: "squeeze (Arr2 (length first) (map (map genfromtxt_float) (first # rest))) = Arr2 n rows"
    using assms c rs by (auto simp: genfromtxt_def open_read_def simp del: squeeze.simps split: if_splits)
  from squeeze_Arr2_eq [OF sq] have n: "n = length first"
    and rows: "rows = map (map genfromtxt_float) (first # rest)" and l: "length rows \<noteq> 1"
    by simp_all
  have "2 \<le> length rows" using l rows by (cases rest) auto
  moreover have "\<forall>r\<in>set rows. length r = n \<and> list_all wf_float r"
    using ne unfolding rows n by (auto simp: list_ex_iff list_all_iff genfromtxt_float_wf)
  ultimately show ?thesis by simp
qed

lemma pointcloud_header_count:
  "py_mod pointcloud_header_format (PInt (int n)) = Inr (butlast (pointcloud_header n))"
  by (simp add: py_mod_def pointcloud_header_format_def pointcloud_header_def
      fmt_conv_def butlast_append)

lemma column_stack_three:
  "column_stack [Arr1 (map f rows), Arr1 (map g rows), Arr1 (map h rows)]
   = Inr (Arr2 3 (map (\<lambda>r. [f r, g r, h r]) rows))"
  apply (simp add: column_stack_def as_matrix_def)
  apply (intro nth_equalityI)
   apply simp_all
  done

lemma pointcloud_text:
  "savetxt_text (Arr2 3 (map (\<lambda>r. [r ! 0, r ! 1, r ! 2]) rows))
     ''%f %f %f'' (butlast (pointcloud_header (length rows))) []
   = (pointcloud_header (length rows) @ concat (map pointcloud_body_line rows), None)"
proof -
  have w: "write_rows ''%f %f %f'' (map (\<lambda>r. [r ! 0, r ! 1, r ! 2]) rows)
           = (concat (map pointcloud_body_line rows), None)"
    by (rule write_rows_lines) (auto simp: pointcloud_body_line_def py_mod_def fmt_conv_def)
  have h: "butlast (pointcloud_header (length rows)) @ newline = pointcloud_header (length rows)"
    by (simp add: pointcloud_header_def newline_def butlast_append)
  have ne: "butlast (pointcloud_header (length rows)) \<noteq> []"
    by (simp add: pointcloud_header_def butlast_append)
  show ?thesis
    using ne w by (simp add: savetxt_text_def as_matrix_def header_no_comment h)
qed

lemma save_pointcloud_result:
  assumes "genfromtxt fs input_file '', '' 1 = Inr (Arr2 n rows)" "3 \<le> n"
  shows "save_pointcloud_from_ORB_SLAM fs input_file output_file
         = (fs(output_file \<mapsto> pointcloud_header (length rows)
                                @ concat (map pointcloud_body_line rows)),
            None)"
  using assms pointcloud_text [of rows]
  by (simp add: save_pointcloud_from_ORB_SLAM_def column_def shape_def tuple_get_def list_get_def
      pointcloud_header_count column_stack_three savetxt_def)

lemma save_pointcloud_success:
  assumes "save_pointcloud_from_ORB_SLAM fs input_file output_file = (fs', None)"
  shows "\<exists>n rows. genfromtxt fs input_file '', '' 1 = Inr (Arr2 n rows) \<and> 3 \<le> n
           \<and> fs' = fs(output_file \<mapsto> pointcloud_header (length rows)
                                       @ concat (map pointcloud_body_line rows))"
proof -
  obtain coords z where g: "genfromtxt fs input_file '', '' 1 = Inr coords"
    and c: "column coords 2 = Inr z"
    using assms by (auto simp: save_pointcloud_from_ORB_SLAM_def split: sum.splits)
  from column_Inr [OF c] obtain n rows where a: "coords = Arr2 n rows" "2 < n"
    by blast
  then have n: "3 \<le> n" by simp
  have "genfromtxt fs input_file '', '' 1 = Inr (Arr2 n rows)" using g a by simp
  from save_pointcloud_result [OF this n, of output_file] this n assms show ?thesis
    by auto
qed

text \<open>
  Claim C2, as amended. When the point-cloud converter succeeds on an input of \<open>N\<close> rows,
  the viewer's parsing stage on the written file recovers exactly \<open>N\<close> triples in order:
  each coordinate is the input coordinate as written with six decimals, read again and
  cast to float32.
\<close>

theorem pointcloud_round_trip:
  assumes "save_pointcloud_from_ORB_SLAM fs input_file output_file = (fs', None)"
  shows "\<exists>n rows. genfromtxt fs input_file '', '' 1 = Inr (Arr2 n rows) \<and> 3 \<le> n
           \<and> plot_3d_point_cloud fs' output_file
             = Inr (Arr1 (map (\<lambda>r. read_back (r ! 0)) rows),
                    Arr1 (map (\<lambda>r. read_back (r ! 1)) rows),
                    Arr1 (map (\<lambda>r. read_back (r ! 2)) rows))"
proof -
  from save_pointcloud_success [OF assms] obtain n rows where
    g: "genfromtxt fs input_file '', '' 1 = Inr (Arr2 n rows)" and n: "3 \<le> n"
    and w: "fs' = fs(output_file \<mapsto> pointcloud_header (length rows)
                                    @ concat (map pointcloud_body_line rows))"
    by blast
  from genfromtxt_Arr2 [OF g] have l: "2 \<le> length rows"
    and r: "\<forall>r\<in>set rows. wf_row r"
    using n by (simp_all add: wf_row_def)
  have "fs' output_file
        = Some (pointcloud_header (length rows) @ concat (map pointcloud_body_line rows))"
    using w by simp
  from plot_pointcloud_text [where fs = fs' and ply_file = output_file, OF r l this] g n l
  show ?thesis
    by blast
qed

theorem pointcloud_round_trip_witness:
  "plot_3d_point_cloud
     (fst (save_pointcloud_from_ORB_SLAM
             [''in'' \<mapsto> ''pos_x, pos_y, pos_z\<newline>1.0, 2.5, 3.0\<newline>4.0, 5.0, 6.0\<newline>''] ''in'' ''out''))
     ''out''
   = Inr (Arr1 [Finite False 1, Finite False 4], Arr1 [Finite False (5 / 2), Finite False 5],
          Arr1 [Finite False 3, Finite False 6])"
proof -
  let ?fs = "[''in'' \<mapsto> ''pos_x, pos_y, pos_z\<newline>1.0, 2.5, 3.0\<newline>4.0, 5.0, 6.0\<newline>'']"
  let ?run = "save_pointcloud_from_ORB_SLAM ?fs ''in'' ''out''"
  let ?rows = "[[Finite False 1, Finite False (5 / 2), Finite False 3],
                [Finite False 4, Finite False 5, Finite False 6]]"
  have "snd ?run = None" by code_simp
  then have 1: "?run = (fst ?run, None)" by (simp add: prod_eq_iff)
  have g: "genfromtxt ?fs ''in'' '', '' 1 = Inr (Arr2 3 ?rows)" by code_simp
  obtain n rows where "genfromtxt ?fs ''in'' '', '' 1 = Inr (Arr2 n rows)"
    and p: "plot_3d_point_cloud (fst ?run) ''out''
            = Inr (Arr1 (map (\<lambda>r. read_back (r ! 0)) rows),
                   Arr1 (map (\<lambda>r. read_back (r ! 1)) rows),
                   Arr1 (map (\<lambda>r. read_back (r ! 2)) rows))"
    using pointcloud_round_trip [OF 1] by blast
  then have rows: "rows = ?rows" using g by simp
  have "map (\<lambda>r. read_back (r ! 0)) ?rows = [Finite False 1, Finite False 4]"
    "map (\<lambda>r. read_back (r ! 1)) ?rows = [Finite False (5 / 2), Finite False 5]"
    "map (\<lambda>r. read_back (r ! 2)) ?rows = [Finite False 3, Finite False 6]"
    by code_simp+
  then show ?thesis
    using p unfolding rows by (simp only:)
qed

text \<open>
  The recovered value need not agree with the input at six decimals: float32 has 24
  significant bits, and the coordinate \<open>16777217.0\<close> comes back as \<open>16777216.0\<close>.
\<close>

theorem pointcloud_round_trip_counterexample:
  "genfromtxt [''in'' \<mapsto> ''pos_x, pos_y, pos_z\<newline>16777217.0, 0.5, 2.0\<newline>1.0, 2.0, 3.0\<newline>''] ''in'' '', '' 1
   = Inr (Arr2 3 [[Finite False 16777217, Finite False (1 / 2), Finite False 2],
                  [Finite False 1, Finite False 2, Finite False 3]])
   \<and> plot_3d_point_cloud
       (fst (save_pointcloud_from_ORB_SLAM
               [''in'' \<mapsto> ''pos_x, pos_y, pos_z\<newline>16777217.0, 0.5, 2.0\<newline>1.0, 2.0, 3.0\<newline>''] ''in'' ''out''))
       ''out''
     = Inr (Arr1 [Finite False 16777216, Finite False 1], Arr1 [Finite False (1 / 2), Finite False 2],
            Arr1 [Finite False 2, Finite False 3])
   \<and> fmt_f (Finite False 16777216) \<noteq> fmt_f (Finite False 16777217)"
  by code_simp

subsection \<open>Running the point-cloud converter again\<close>

lemma genfromtxt_same_file:
  "fs' fname = fs fname \<Longrightarrow> genfromtxt fs' fname d k = genfromtxt fs fname d k"
  by (simp add: genfromtxt_def open_read_def)

lemma savetxt_again:
  "savetxt fs fname X fmt h c = (fs', e) \<Longrightarrow> savetxt fs' fname X fmt h c = (fs', e)"
  by (auto simp: savetxt_def split: prod.splits)

lemma save_pointcloud_again:
  assumes "save_pointcloud_from_ORB_SLAM fs input_file output_file = (fs', e)"
    and "fs' input_file = fs input_file"
  shows "save_pointcloud_from_ORB_SLAM fs' input_file output_file = (fs', e)"
  using assms(1) genfromtxt_same_file [where fs' = fs' and fs = fs and fname = input_file
      and d = "'', ''" and k = 1, OF assms(2)]
  by (auto simp: save_pointcloud_from_ORB_SLAM_def split: sum.splits dest: savetxt_again)

text \<open>
  Claim C9. When a run of the point-cloud converter has left the input file as it was, a
  second run with the same paths ends as the first did and leaves every file exactly as
  the first run left it. After a successful first run the output file holds the PLY header
  for the rows of the input followed by one line for each row, and the second run writes
  these same bytes again.
\<close>

theorem pointcloud_idempotent:
  assumes "save_pointcloud_from_ORB_SLAM fs input_file output_file = (fs', e)"
    and "fs' input_file = fs input_file"
  shows "save_pointcloud_from_ORB_SLAM fs' input_file output_file = (fs', e)
         \<and> (e = None \<longrightarrow>
              (\<exists>n rows. genfromtxt fs input_file '', '' 1 = Inr (Arr2 n rows)
                 \<and> fs' output_file
                   = Some (pointcloud_header (length rows) @ concat (map pointcloud_body_line rows))
                 \<and> fst (save_pointcloud_from_ORB_SLAM fs' input_file output_file) output_file
                   = Some (pointcloud_header (length rows)
                           @ concat (map pointcloud_body_line rows))))"
proof (intro conjI impI)
  show again: "save_pointcloud_from_ORB_SLAM fs' input_file output_file = (fs', e)"
    using assms by (rule save_pointcloud_again)
  assume "e = None"
  then have "save_pointcloud_from_ORB_SLAM fs input_file output_file = (fs', None)"
    using assms(1) by simp
  from save_pointcloud_success [OF this] obtain n rows where
    g: "genfromtxt fs input_file '', '' 1 = Inr (Arr2 n rows)"
    and w: "fs' = fs(output_file \<mapsto> pointcloud_header (length rows)
                                    @ concat (map pointcloud_body_line rows))"
    by blast
  have "fs' output_file
        = Some (pointcloud_header (length rows) @ concat (map pointcloud_body_line rows))"
    using w by simp
  then show "\<exists>n rows. genfromtxt fs input_file '', '' 1 = Inr (Arr2 n rows)
     \<and> fs' output_file
       = Some (pointcloud_header (length rows) @ concat (map pointcloud_body_line rows))
     \<and> fst (save_pointcloud_from_ORB_SLAM fs' input_file output_file) output_file
       = Some (pointcloud_header (length rows) @ concat (map pointcloud_body_line rows))"
    using g again by auto
qed

theorem pointcloud_idempotent_witness:
  "snd (save_pointcloud_from_ORB_SLAM
          [''in'' \<mapsto> ''pos_x, pos_y, pos_z\<newline>1.0, 2.5, 3.0\<newline>4.0, 5.0, 6.0\<newline>''] ''in'' ''out'') = None
   \<and> fst (save_pointcloud_from_ORB_SLAM
            [''in'' \<mapsto> ''pos_x, pos_y, pos_z\<newline>1.0, 2.5, 3.0\<newline>4.0, 5.0, 6.0\<newline>''] ''in'' ''out'') ''out''
     = Some ''ply\<newline>format ascii 1.0\<newline>element vertex 2\<newline>property float x\<newline>property float y\<newline>property float z\<newline>end_header\<newline>1.000000 2.500000 3.000000\<newline>4.000000 5.000000 6.000000\<newline>''
   \<and> fst (save_pointcloud_from_ORB_SLAM
            (fst (save_pointcloud_from_ORB_SLAM
                    [''in'' \<mapsto> ''pos_x, pos_y, pos_z\<newline>1.0, 2.5, 3.0\<newline>4.0, 5.0, 6.0\<newline>''] ''in'' ''out''))
            ''in'' ''out'') ''out''
     = Some ''ply\<newline>format ascii 1.0\<newline>element vertex 2\<newline>property float x\<newline>property float y\<newline>property float z\<newline>end_header\<newline>1.000000 2.500000 3.000000\<newline>4.000000 5.000000 6.000000\<newline>''
   \<and> save_pointcloud_from_ORB_SLAM
        (fst (save_pointcloud_from_ORB_SLAM
                [''in'' \<mapsto> ''pos_x, pos_y, pos_z\<newline>1.0, 2.5, 3.0\<newline>4.0, 5.0, 6.0\<newline>''] ''in'' ''out''))
        ''in'' ''out''
     = (fst (save_pointcloud_from_ORB_SLAM
               [''in'' \<mapsto> ''pos_x, pos_y, pos_z\<newline>1.0, 2.5, 3.0\<newline>4.0, 5.0, 6.0\<newline>''] ''in'' ''out''),
        None)"
proof -
  let ?fs = "[''in'' \<mapsto> ''pos_x, pos_y, pos_z\<newline>1.0, 2.5, 3.0\<newline>4.0, 5.0, 6.0\<newline>'']"
  let ?run = "save_pointcloud_from_ORB_SLAM ?fs ''in'' ''out''"
  let ?rows = "[[Finite False 1, Finite False (5 / 2), Finite False 3],
                [Finite False 4, Finite False 5, Finite False 6]]"
  let ?out = "''ply\<newline>format ascii 1.0\<newline>element vertex 2\<newline>property float x\<newline>property float y\<newline>property float z\<newline>end_header\<newline>1.000000 2.500000 3.000000\<newline>4.000000 5.000000 6.000000\<newline>''"
  have 0: "snd ?run = None" by code_simp
  then have 1: "?run = (fst ?run, None)" by (simp add: prod_eq_iff)
  have "fst ?run ''in'' = Some ''pos_x, pos_y, pos_z\<newline>1.0, 2.5, 3.0\<newline>4.0, 5.0, 6.0\<newline>''"
    by code_simp
  then have 2: "fst ?run ''in'' = ?fs ''in''" by simp
  have g: "genfromtxt ?fs ''in'' '', '' 1 = Inr (Arr2 3 ?rows)" by code_simp
  have t: "pointcloud_header (length ?rows) @ concat (map pointcloud_body_line ?rows) = ?out"
    by code_simp
  from pointcloud_idempotent [where fs = ?fs and fs' = "fst ?run" and input_file = "''in''"
      and output_file = "''out''" and e = None, OF 1 2]
  obtain n rows where again: "save_pointcloud_from_ORB_SLAM (fst ?run) ''in'' ''out'' = (fst ?run, None)"
    and g': "genfromtxt ?fs ''in'' '', '' 1 = Inr (Arr2 n rows)"
    and w1: "fst ?run ''out''
             = Some (pointcloud_header (length rows) @ concat (map pointcloud_body_line rows))"
    and w2: "fst (save_pointcloud_from_ORB_SLAM (fst ?run) ''in'' ''out'') ''out''
             = Some (pointcloud_header (length rows) @ concat (map pointcloud_body_line rows))"
    by blast
  have rows: "rows = ?rows" using g g' by simp
  have o1: "fst ?run ''out'' = Some ?out" using w1 t unfolding rows by (simp only:)
  have o2: "fst (save_pointcloud_from_ORB_SLAM (fst ?run) ''in'' ''out'') ''out'' = Some ?out"
    using w2 t unfolding rows by (simp only:)
  show ?thesis
    using 0 o1 o2 again by (intro conjI)
qed

subsection \<open>Examples of the conversions\<close>

text \<open>
  \<open>float\<close> allows an underscore between digits and \<open>np.loadtxt\<close> does not; \<open>float\<close> strips
  a no-break space and not the separator \<open>0x1C\<close>, which \<open>str.strip()\<close> removes.
\<close>

lemma float_examples:
  "py_float ''1_0'' = Some (Finite False 10)"
  "loadtxt_float32 ''1_0'' = None"
  "py_float [CHR ''1'', CHR ''0'', CHR 0x1C] = None"
  "py_float [CHR ''1'', CHR ''0'', CHR 0xA0] = Some (Finite False 10)"
  "py_strip [CHR ''1'', CHR ''0'', CHR 0x1C, CHR 0xA0, CHR 0x0A] = ''10''"
  by code_simp+

lemma loadtxt_underscore_example:
  "plot_3d_point_cloud [''p'' \<mapsto> ''1_0 2 3\<newline>4 5 6\<newline>''] ''p'' = Inl ValueError"
  "plot_3d_point_cloud [''p'' \<mapsto> ''ply\<newline>end_header\<newline>1_0 2 3\<newline>''] ''p'' = Inl ValueError"
  by code_simp+

end
